theory Spec2Isabelle
  imports Main "HOL-Library.Word" "HOL-Library.AList"
begin

section \<open>The active scheduling queue with in-flight event tracking\<close>

text \<open>
  A shallow embedding of \<^verbatim>\<open>pkg/scheduler/internal/queue/active_queue.go\<close>.
  Every method of \<^verbatim>\<open>activeQueue\<close> runs under the queue's lock, so a method call is one
  atomic transition of the queue state. Pointers to pods and to pod infos are taken to be
  non-nil. Logging and the metrics counters are outside the queue state and are left out.
\<close>

subsection \<open>Pods, queued pod infos and cluster events\<close>

type_synonym UID = string

text \<open>\<^verbatim>\<open>v1.Pod\<close>: the fields the queue reads.\<close>

record Pod =
  UID :: UID
  Name :: string
  SchedulerName :: string

text \<open>\<^verbatim>\<open>framework.QueuedPodInfo\<close>: the fields the queue reads or writes.\<close>

record QueuedPodInfo =
  Pod :: Pod
  Attempts :: int
  UnschedulablePlugins :: "string set"
  PendingPlugins :: "string set"

text \<open>
  Modelled from the spec: \<^verbatim>\<open>QueuedPodInfo.Update\<close> is declared outside the given sources.
  The spec says it updates the internal pod pointer to the new pod; its error result is
  discarded by the only caller.
\<close>

definition Update :: "QueuedPodInfo \<Rightarrow> Pod \<Rightarrow> QueuedPodInfo" where
  "Update pInfo newPod = pInfo\<lparr>Pod := newPod\<rparr>"

text \<open>
  Modelled from the spec: \<^verbatim>\<open>framework.ClusterEvent\<close> is declared outside the given sources;
  the spec lists the kinds of cluster events.
\<close>

datatype ClusterEventKind =
    NodeAdd | NodeDelete | NodeAllocatableChange | NodeLabelChange | NodeTaintChange
  | NodeConditionChange | NodeAnnotationChange | NodeSpecUnschedulableChange
  | PodAdd | PodUpdate | PodDelete

text \<open>The \<^verbatim>\<open>interface{}\<close> values stored as old and new object of an event.\<close>

datatype obj = NilObj | PodObj Pod | OtherObj string

record clusterEvent =
  event :: ClusterEventKind
  oldObj :: obj
  newObj :: obj

datatype error = Empty | NotFound | NotInFlight

subsection \<open>The keyed heap\<close>

text \<open>
  Modelled from the spec: the package \<^verbatim>\<open>pkg/scheduler/internal/heap\<close> is outside the given
  sources. The spec describes a keyed priority queue with unique keys, a key function and a
  comparator supplied at construction: \<^verbatim>\<open>AddOrUpdate\<close> inserts when the key is absent and
  replaces the value otherwise, \<^verbatim>\<open>Delete\<close> fails with \<^verbatim>\<open>NotFound\<close> on an absent key,
  \<^verbatim>\<open>Pop\<close> removes and returns the minimum under the comparator and fails with \<^verbatim>\<open>Empty\<close>
  on an empty heap, \<^verbatim>\<open>Get\<close> and \<^verbatim>\<open>Has\<close> look a key up, \<^verbatim>\<open>List\<close> and \<^verbatim>\<open>Len\<close> read the
  contents. The backing array is kept as a list of keyed items; the minimum is selected
  when popping.
\<close>

record Heap =
  items :: "(UID \<times> QueuedPodInfo) list"
  keyFunc :: "QueuedPodInfo \<Rightarrow> UID"
  lessFunc :: "QueuedPodInfo \<Rightarrow> QueuedPodInfo \<Rightarrow> bool"

definition Heap_Get :: "Heap \<Rightarrow> QueuedPodInfo \<Rightarrow> QueuedPodInfo option" where
  "Heap_Get h obj = map_of (items h) (keyFunc h obj)"

definition Heap_Has :: "Heap \<Rightarrow> QueuedPodInfo \<Rightarrow> bool" where
  "Heap_Has h obj = (case Heap_Get h obj of None \<Rightarrow> False | Some _ \<Rightarrow> True)"

definition Heap_AddOrUpdate :: "QueuedPodInfo \<Rightarrow> Heap \<Rightarrow> Heap" where
  "Heap_AddOrUpdate obj h = h\<lparr>items := AList.update (keyFunc h obj) obj (items h)\<rparr>"

definition Heap_Delete :: "QueuedPodInfo \<Rightarrow> Heap \<Rightarrow> error + Heap" where
  "Heap_Delete obj h =
     (case map_of (items h) (keyFunc h obj) of
        None \<Rightarrow> Inl NotFound
      | Some _ \<Rightarrow> Inr (h\<lparr>items := AList.delete (keyFunc h obj) (items h)\<rparr>))"

definition Heap_Len :: "Heap \<Rightarrow> int" where
  "Heap_Len h = int (length (items h))"

definition Heap_List :: "Heap \<Rightarrow> QueuedPodInfo list" where
  "Heap_List h = map snd (items h)"

definition minItem ::
  "(QueuedPodInfo \<Rightarrow> QueuedPodInfo \<Rightarrow> bool) \<Rightarrow> (UID \<times> QueuedPodInfo) \<Rightarrow>
   (UID \<times> QueuedPodInfo) list \<Rightarrow> (UID \<times> QueuedPodInfo)" where
  "minItem lt x xs = fold (\<lambda>y m. if lt (snd y) (snd m) then y else m) xs x"

definition Heap_Pop :: "Heap \<Rightarrow> error + (QueuedPodInfo \<times> Heap)" where
  "Heap_Pop h =
     (case items h of
        [] \<Rightarrow> Inl Empty
      | x # xs \<Rightarrow>
          (let m = minItem (lessFunc h) x xs
           in Inr (snd m, h\<lparr>items := AList.delete (fst m) (items h)\<rparr>)))"

subsection \<open>The in-flight timeline\<close>

text \<open>
  \<^verbatim>\<open>inFlightEvents\<close> is a \<^verbatim>\<open>container/list\<close> whose element values are either a pod (the
  marker pushed by \<^verbatim>\<open>pop\<close>) or a cluster event. \<^verbatim>\<open>inFlightPods\<close> keeps pointers to list
  elements, so every element carries its address: a natural number handed out by the
  allocator counter \<open>nextElem\<close> of the queue state and never reused.
\<close>

datatype entry = PodMarker Pod | EventRecord clusterEvent

type_synonym element = "nat \<times> entry"

text \<open>\<^verbatim>\<open>l.Remove(e)\<close>: unlinks the element with that address; nothing happens if it is not in the list.\<close>

definition Remove :: "nat \<Rightarrow> element list \<Rightarrow> element list" where
  "Remove r l = filter (\<lambda>e. fst e \<noteq> r) l"

text \<open>The elements reached by \<^verbatim>\<open>e.Next()\<close> from the element with address \<open>r\<close>, none if it is not in the list.\<close>

definition nextElems :: "nat \<Rightarrow> element list \<Rightarrow> element list" where
  "nextElems r l = (case dropWhile (\<lambda>e. fst e \<noteq> r) l of [] \<Rightarrow> [] | _ # rest \<Rightarrow> rest)"

text \<open>The loop of \<^verbatim>\<open>clusterEventsForPod\<close>: keep the cluster events, skip the pods.\<close>

fun collectEvents :: "element list \<Rightarrow> clusterEvent list" where
  "collectEvents [] = []"
| "collectEvents ((_, EventRecord e) # l) = e # collectEvents l"
| "collectEvents ((_, PodMarker _) # l) = collectEvents l"

text \<open>The loop of \<^verbatim>\<open>done\<close>: drop elements from the front until the list is empty or a pod is in front.\<close>

fun pruneFront :: "element list \<Rightarrow> element list" where
  "pruneFront [] = []"
| "pruneFront ((_, EventRecord _) # l) = pruneFront l"
| "pruneFront ((i, PodMarker p) # l) = (i, PodMarker p) # l"

subsection \<open>The active queue\<close>

record activeQueue =
  queue :: Heap
  inFlightPods :: "(UID \<times> nat) list"
  inFlightEvents :: "element list"
  nextElem :: nat
  schedCycle :: "64 word"
  closed :: bool
  isSchedulingQueueHintEnabled :: bool

definition newActiveQueue :: "Heap \<Rightarrow> bool \<Rightarrow> activeQueue" where
  "newActiveQueue q hints =
     \<lparr>queue = q, inFlightPods = [], inFlightEvents = [], nextElem = 0,
      schedCycle = 0, closed = False, isSchedulingQueueHintEnabled = hints\<rparr>"

text \<open>\<^verbatim>\<open>aq.inFlightEvents.PushBack(v)\<close>: a new element at the back; its address is returned.\<close>

definition PushBack :: "entry \<Rightarrow> activeQueue \<Rightarrow> nat \<times> activeQueue" where
  "PushBack v aq =
     (nextElem aq,
      aq\<lparr>inFlightEvents := inFlightEvents aq @ [(nextElem aq, v)],
         nextElem := Suc (nextElem aq)\<rparr>)"

text \<open>
  \<^verbatim>\<open>underLock(fn)\<close>: the callback may read the heap and call \<^verbatim>\<open>AddOrUpdate\<close>; it is given by
  the pod infos it adds, in order.
\<close>

definition underLock :: "QueuedPodInfo list \<Rightarrow> activeQueue \<Rightarrow> activeQueue" where
  "underLock adds aq = aq\<lparr>queue := fold Heap_AddOrUpdate adds (queue aq)\<rparr>"

text \<open>
  \<^verbatim>\<open>update\<close>: the heap stores pointers, so \<^verbatim>\<open>pInfo.Update(newPod)\<close> changes the item stored
  under the key of \<open>oldPodInfo\<close> in place, before \<^verbatim>\<open>AddOrUpdate\<close> files the same pod info under
  its (new) key.
\<close>

definition update_aq ::
  "Pod \<Rightarrow> QueuedPodInfo \<Rightarrow> activeQueue \<Rightarrow> QueuedPodInfo option \<times> activeQueue" where
  "update_aq newPod oldPodInfo aq =
     (case Heap_Get (queue aq) oldPodInfo of
        Some pInfo \<Rightarrow>
          (let pInfo' = Update pInfo newPod;
               h = queue aq;
               h1 = h\<lparr>items := AList.update (keyFunc h oldPodInfo) pInfo' (items h)\<rparr>
           in (Some pInfo', aq\<lparr>queue := Heap_AddOrUpdate pInfo' h1\<rparr>))
      | None \<Rightarrow> (None, aq))"

definition delete_aq :: "QueuedPodInfo \<Rightarrow> activeQueue \<Rightarrow> error option \<times> activeQueue" where
  "delete_aq pInfo aq =
     (case Heap_Delete pInfo (queue aq) of
        Inl err \<Rightarrow> (Some err, aq)
      | Inr h \<Rightarrow> (None, aq\<lparr>queue := h\<rparr>))"

text \<open>
  \<^verbatim>\<open>pop\<close>: one pass through the method under the lock. \<open>Waiting\<close> is the call parked in
  \<^verbatim>\<open>aq.cond.Wait()\<close>: the state is as it was, and the call runs the loop again, that is
  \<open>pop\<close> again, when it is woken up. \<open>Returned\<close> carries the two results of the method.
\<close>

datatype pop_result = Waiting | Returned "QueuedPodInfo option" "error option"

definition pop :: "activeQueue \<Rightarrow> pop_result \<times> activeQueue" where
  "pop aq =
     (if Heap_Len (queue aq) = 0 then
        (if closed aq then (Returned None None, aq) else (Waiting, aq))
      else
        (case Heap_Pop (queue aq) of
           Inl err \<Rightarrow> (Returned None (Some err), aq)
         | Inr (pInfo, h) \<Rightarrow>
             (let pInfo1 = pInfo\<lparr>Attempts := Attempts pInfo + 1\<rparr>;
                  aq1 = aq\<lparr>queue := h, schedCycle := schedCycle aq + 1\<rparr>;
                  aq2 = (if isSchedulingQueueHintEnabled aq1 then
                           (let (r, aq') = PushBack (PodMarker (Pod pInfo1)) aq1
                            in aq'\<lparr>inFlightPods :=
                                 AList.update (UID (Pod pInfo1)) r (inFlightPods aq')\<rparr>)
                         else aq1);
                  pInfo2 = pInfo1\<lparr>UnschedulablePlugins := {}, PendingPlugins := {}\<rparr>
              in (Returned (Some pInfo2) None, aq2))))"

definition list_aq :: "activeQueue \<Rightarrow> Pod list" where
  "list_aq aq = map Pod (Heap_List (queue aq))"

definition len :: "activeQueue \<Rightarrow> int" where
  "len aq = Heap_Len (queue aq)"

definition has :: "QueuedPodInfo \<Rightarrow> activeQueue \<Rightarrow> bool" where
  "has pInfo aq = Heap_Has (queue aq) pInfo"

definition listInFlightEvents :: "activeQueue \<Rightarrow> entry list" where
  "listInFlightEvents aq = map snd (inFlightEvents aq)"

definition listInFlightPods :: "activeQueue \<Rightarrow> Pod list" where
  "listInFlightPods aq =
     concat (map (\<lambda>(u, r). concat (map (\<lambda>(i, v). case v of PodMarker p \<Rightarrow> if i = r then [p] else []
                                                        | EventRecord _ \<Rightarrow> [])
                                        (inFlightEvents aq)))
                 (inFlightPods aq))"

definition clusterEventsForPod :: "QueuedPodInfo \<Rightarrow> activeQueue \<Rightarrow> error + clusterEvent list" where
  "clusterEventsForPod pInfo aq =
     (case map_of (inFlightPods aq) (UID (Pod pInfo)) of
        None \<Rightarrow> Inl NotInFlight
      | Some inFlightPod \<Rightarrow> Inr (collectEvents (nextElems inFlightPod (inFlightEvents aq))))"

definition podObj :: "Pod option \<Rightarrow> obj" where
  "podObj p = (case p of None \<Rightarrow> NilObj | Some q \<Rightarrow> PodObj q)"

definition addEventIfPodInFlight ::
  "Pod option \<Rightarrow> Pod \<Rightarrow> ClusterEventKind \<Rightarrow> activeQueue \<Rightarrow> bool \<times> activeQueue" where
  "addEventIfPodInFlight oldPod newPod ev aq =
     (case map_of (inFlightPods aq) (UID newPod) of
        Some _ \<Rightarrow>
          (True, snd (PushBack (EventRecord \<lparr>event = ev, oldObj = podObj oldPod,
                                              newObj = PodObj newPod\<rparr>) aq))
      | None \<Rightarrow> (False, aq))"

definition addEventIfAnyInFlight ::
  "obj \<Rightarrow> obj \<Rightarrow> ClusterEventKind \<Rightarrow> activeQueue \<Rightarrow> bool \<times> activeQueue" where
  "addEventIfAnyInFlight old new ev aq =
     (if length (inFlightPods aq) \<noteq> 0 then
        (True, snd (PushBack (EventRecord \<lparr>event = ev, oldObj = old, newObj = new\<rparr>) aq))
      else (False, aq))"

definition schedulingCycle :: "activeQueue \<Rightarrow> 64 word" where
  "schedulingCycle aq = schedCycle aq"

definition done_aq :: "UID \<Rightarrow> activeQueue \<Rightarrow> activeQueue" where
  "done_aq pod aq =
     (case map_of (inFlightPods aq) pod of
        None \<Rightarrow> aq
      | Some inFlightPod \<Rightarrow>
          aq\<lparr>inFlightPods := AList.delete pod (inFlightPods aq),
             inFlightEvents := pruneFront (Remove inFlightPod (inFlightEvents aq))\<rparr>)"

definition close :: "activeQueue \<Rightarrow> activeQueue" where
  "close aq = aq\<lparr>closed := True\<rparr>"

text \<open>\<^verbatim>\<open>broadcast\<close> wakes the parked calls of \<open>pop\<close>; the queue state is not touched.\<close>

definition broadcast :: "activeQueue \<Rightarrow> activeQueue" where
  "broadcast aq = aq"

subsection \<open>Sequences of method calls\<close>

datatype op =
    UnderLockOp "QueuedPodInfo list"
  | UnderRLockOp
  | UpdateOp Pod QueuedPodInfo
  | DeleteOp QueuedPodInfo
  | PopOp
  | ListOp
  | LenOp
  | HasOp QueuedPodInfo
  | ListInFlightEventsOp
  | ListInFlightPodsOp
  | ClusterEventsForPodOp QueuedPodInfo
  | AddEventIfPodInFlightOp "Pod option" Pod ClusterEventKind
  | AddEventIfAnyInFlightOp obj obj ClusterEventKind
  | SchedulingCycleOp
  | DoneOp UID
  | CloseOp
  | BroadcastOp

datatype result =
    RUnit
  | RInfo "QueuedPodInfo option"
  | RErr "error option"
  | RPop pop_result
  | RPods "Pod list"
  | RLen int
  | RBool bool
  | REntries "entry list"
  | REvents "error + clusterEvent list"
  | RCycle "64 word"

fun exec :: "op \<Rightarrow> activeQueue \<Rightarrow> result \<times> activeQueue" where
  "exec (UnderLockOp adds) aq = (RUnit, underLock adds aq)"
| "exec UnderRLockOp aq = (RUnit, aq)"
| "exec (UpdateOp newPod oldPodInfo) aq =
     (let (r, aq') = update_aq newPod oldPodInfo aq in (RInfo r, aq'))"
| "exec (DeleteOp pInfo) aq = (let (r, aq') = delete_aq pInfo aq in (RErr r, aq'))"
| "exec PopOp aq = (let (r, aq') = pop aq in (RPop r, aq'))"
| "exec ListOp aq = (RPods (list_aq aq), aq)"
| "exec LenOp aq = (RLen (len aq), aq)"
| "exec (HasOp pInfo) aq = (RBool (has pInfo aq), aq)"
| "exec ListInFlightEventsOp aq = (REntries (listInFlightEvents aq), aq)"
| "exec ListInFlightPodsOp aq = (RPods (listInFlightPods aq), aq)"
| "exec (ClusterEventsForPodOp pInfo) aq = (REvents (clusterEventsForPod pInfo aq), aq)"
| "exec (AddEventIfPodInFlightOp oldPod newPod ev) aq =
     (let (r, aq') = addEventIfPodInFlight oldPod newPod ev aq in (RBool r, aq'))"
| "exec (AddEventIfAnyInFlightOp old new ev) aq =
     (let (r, aq') = addEventIfAnyInFlight old new ev aq in (RBool r, aq'))"
| "exec SchedulingCycleOp aq = (RCycle (schedulingCycle aq), aq)"
| "exec (DoneOp pod) aq = (RUnit, done_aq pod aq)"
| "exec CloseOp aq = (RUnit, close aq)"
| "exec BroadcastOp aq = (RUnit, broadcast aq)"

fun run :: "op list \<Rightarrow> activeQueue \<Rightarrow> result list \<times> activeQueue" where
  "run [] aq = ([], aq)"
| "run (x # xs) aq =
     (let (r, aq1) = exec x aq; (rs, aq2) = run xs aq1 in (r # rs, aq2))"

text \<open>A successful pop is a call of \<open>pop\<close> that returned a pod.\<close>

definition successfulPop :: "result \<Rightarrow> bool" where
  "successfulPop r = (case r of RPop (Returned (Some _) _) \<Rightarrow> True | _ \<Rightarrow> False)"

subsection \<open>Events seen by a scheduling attempt\<close>

text \<open>
  The events a method call appends to the timeline, read off the call and its result: the
  two recording methods append one event exactly when they return true.
\<close>

definition recorded :: "op \<Rightarrow> result \<Rightarrow> clusterEvent list" where
  "recorded x r =
     (if r = RBool True then
        (case x of
           AddEventIfPodInFlightOp oldPod newPod ev \<Rightarrow>
             [\<lparr>event = ev, oldObj = podObj oldPod, newObj = PodObj newPod\<rparr>]
         | AddEventIfAnyInFlightOp old new ev \<Rightarrow> [\<lparr>event = ev, oldObj = old, newObj = new\<rparr>]
         | _ \<Rightarrow> [])
      else [])"

text \<open>The result of a call of \<open>pop\<close> that returned a pod with UID \<open>u\<close>.\<close>

definition poppedUID :: "UID \<Rightarrow> result \<Rightarrow> bool" where
  "poppedUID u r = (case r of RPop (Returned (Some pInfo) _) \<Rightarrow> UID (Pod pInfo) = u | _ \<Rightarrow> False)"

text \<open>
  The events appended since the marker of \<open>u\<close> was appended, over a sequence of calls with
  their results: a pop of \<open>u\<close> appends a new marker and starts afresh, every other call adds
  what it appends.
\<close>

fun eventsSince :: "UID \<Rightarrow> clusterEvent list \<Rightarrow> (op \<times> result) list \<Rightarrow> clusterEvent list" where
  "eventsSince u acc [] = acc"
| "eventsSince u acc ((x, r) # xs) =
     eventsSince u (if poppedUID u r then [] else acc @ recorded x r) xs"

text \<open>The events behind the element with address \<open>r\<close>.\<close>

definition eventsAfter :: "nat \<Rightarrow> activeQueue \<Rightarrow> clusterEvent list" where
  "eventsAfter r aq = collectEvents (nextElems r (inFlightEvents aq))"

subsection \<open>Well-formed timelines\<close>

text \<open>The list is empty or has a pod in front.\<close>

definition frontIsPod :: "element list \<Rightarrow> bool" where
  "frontIsPod l =
     (case l of [] \<Rightarrow> True | (_, PodMarker _) # _ \<Rightarrow> True | (_, EventRecord _) # _ \<Rightarrow> False)"

text \<open>
  What every reachable queue state satisfies: the elements of the timeline have distinct
  addresses below the allocator counter, every value of \<open>inFlightPods\<close> is the address of
  a pod of that UID in the timeline, and the timeline is empty or starts with a pod.
\<close>

definition wfT :: "(UID \<times> nat) list \<Rightarrow> element list \<Rightarrow> nat \<Rightarrow> bool" where
  "wfT al l n \<longleftrightarrow>
     distinct (map fst l) \<and>
     (\<forall>e \<in> set l. fst e < n) \<and>
     (\<forall>u r. map_of al u = Some r \<longrightarrow> (\<exists>p. (r, PodMarker p) \<in> set l \<and> UID p = u)) \<and>
     frontIsPod l"

definition wf :: "activeQueue \<Rightarrow> bool" where
  "wf aq = wfT (inFlightPods aq) (inFlightEvents aq) (nextElem aq)"

subsection \<open>References to a UID in the timeline\<close>

fun objUID :: "obj \<Rightarrow> UID option" where
  "objUID NilObj = None"
| "objUID (PodObj p) = Some (UID p)"
| "objUID (OtherObj _) = None"

text \<open>An entry refers to \<open>u\<close>: it is a pod with that UID, or an event about such a pod.\<close>

definition references :: "UID \<Rightarrow> entry \<Rightarrow> bool" where
  "references u v =
     (case v of PodMarker p \<Rightarrow> UID p = u
      | EventRecord e \<Rightarrow> objUID (oldObj e) = Some u \<or> objUID (newObj e) = Some u)"

definition isMarkerOf :: "UID \<Rightarrow> entry \<Rightarrow> bool" where
  "isMarkerOf u v = (case v of PodMarker p \<Rightarrow> UID p = u | EventRecord _ \<Rightarrow> False)"

text \<open>
  Every pod with UID \<open>u\<close> in the timeline is the element \<open>inFlightPods\<close> holds for \<open>u\<close>:
  the pod was not popped a second time before \<open>done\<close> was called for it.
\<close>

definition markersTracked :: "UID \<Rightarrow> activeQueue \<Rightarrow> bool" where
  "markersTracked u aq =
     list_all (\<lambda>(i, v). isMarkerOf u v \<longrightarrow> map_of (inFlightPods aq) u = Some i)
       (inFlightEvents aq)"

text \<open>A queue without hints that tracks nothing.\<close>

definition noHints :: "activeQueue \<Rightarrow> bool" where
  "noHints aq \<longleftrightarrow>
     \<not> isSchedulingQueueHintEnabled aq \<and> inFlightPods aq = [] \<and> inFlightEvents aq = []"

subsection \<open>Comparators and event entries\<close>

text \<open>The comparator of a heap is required to be a strict weak order.\<close>

definition strictWeakOrder :: "(QueuedPodInfo \<Rightarrow> QueuedPodInfo \<Rightarrow> bool) \<Rightarrow> bool" where
  "strictWeakOrder lt \<longleftrightarrow>
     (\<forall>a. \<not> lt a a) \<and>
     (\<forall>a b c. lt a b \<longrightarrow> lt b c \<longrightarrow> lt a c) \<and>
     (\<forall>a b c. \<not> lt a b \<longrightarrow> \<not> lt b c \<longrightarrow> \<not> lt a c)"

text \<open>The element holds a cluster event.\<close>

definition isEvent :: "element \<Rightarrow> bool" where
  "isEvent e = (case snd e of EventRecord _ \<Rightarrow> True | PodMarker _ \<Rightarrow> False)"

subsection \<open>Example pods and an example heap\<close>

definition exPodA :: Pod where
  "exPodA = \<lparr>UID = ''a'', Name = ''pod-a'', SchedulerName = ''default''\<rparr>"

definition exPodB :: Pod where
  "exPodB = \<lparr>UID = ''b'', Name = ''pod-b'', SchedulerName = ''default''\<rparr>"

text \<open>Pod \<open>a\<close> after an update of its spec.\<close>

definition exPodA' :: Pod where
  "exPodA' = \<lparr>UID = ''a'', Name = ''pod-a'', SchedulerName = ''custom''\<rparr>"

definition exInfoA :: QueuedPodInfo where
  "exInfoA = \<lparr>Pod = exPodA, Attempts = 0, UnschedulablePlugins = {}, PendingPlugins = {}\<rparr>"

definition exInfoB :: QueuedPodInfo where
  "exInfoB = \<lparr>Pod = exPodB, Attempts = 1, UnschedulablePlugins = {''NodeAffinity''},
              PendingPlugins = {}\<rparr>"

text \<open>An empty heap keyed by the pod's UID and ordered by the number of attempts.\<close>

definition exHeap :: Heap where
  "exHeap = \<lparr>items = [], keyFunc = (\<lambda>i. UID (Pod i)),
             lessFunc = (\<lambda>a b. Attempts a < Attempts b)\<rparr>"

lemmas aq_defs = Heap_Get_def Heap_Has_def Heap_AddOrUpdate_def Heap_Delete_def Heap_Len_def
  Heap_List_def minItem_def Heap_Pop_def Remove_def nextElems_def newActiveQueue_def PushBack_def
  underLock_def update_aq_def delete_aq_def pop_def list_aq_def len_def has_def
  listInFlightEvents_def listInFlightPods_def clusterEventsForPod_def podObj_def
  addEventIfPodInFlight_def addEventIfAnyInFlight_def schedulingCycle_def done_aq_def close_def
  broadcast_def Update_def successfulPop_def recorded_def poppedUID_def references_def
  isMarkerOf_def markersTracked_def frontIsPod_def isEvent_def

lemmas ex_defs = exPodA_def exPodA'_def exPodB_def exInfoA_def exInfoB_def exHeap_def

section \<open>Properties\<close>

subsection \<open>The heap is not empty when it is popped\<close>

lemma Heap_Pop_Inl: "Heap_Pop h = Inl e \<Longrightarrow> Heap_Len h = 0"
  by (auto simp: Heap_Len_def Heap_Pop_def Let_def split: list.splits)

lemma swo_asym: "strictWeakOrder lt \<Longrightarrow> lt a b \<Longrightarrow> \<not> lt b a"
  unfolding strictWeakOrder_def by metis

lemma swo_negtrans: "strictWeakOrder lt \<Longrightarrow> \<not> lt a b \<Longrightarrow> \<not> lt b c \<Longrightarrow> \<not> lt a c"
  unfolding strictWeakOrder_def by metis

lemma swo_irrefl: "strictWeakOrder lt \<Longrightarrow> \<not> lt a a"
  unfolding strictWeakOrder_def by metis

lemma minItem_mem: "minItem lt x xs \<in> set (x # xs)"
  unfolding minItem_def by (induction xs arbitrary: x) auto

lemma minItem_min:
  assumes "strictWeakOrder lt"
  shows "\<forall>y \<in> set (x # xs). \<not> lt (snd y) (snd (minItem lt x xs))"
  unfolding minItem_def
proof (induction xs arbitrary: x)
  case Nil
  from swo_irrefl[OF assms] show ?case by simp
next
  case (Cons z zs)
  let ?m0 = "if lt (snd z) (snd x) then z else x"
  let ?res = "fold (\<lambda>y m. if lt (snd y) (snd m) then y else m) zs ?m0"
  from Cons[of ?m0] have ih: "\<forall>y \<in> set (?m0 # zs). \<not> lt (snd y) (snd ?res)" .
  then have m0: "\<not> lt (snd ?m0) (snd ?res)" by simp
  have x: "\<not> lt (snd x) (snd ?res)"
  proof (cases "lt (snd z) (snd x)")
    case True
    then have "\<not> lt (snd x) (snd z)" by (rule swo_asym[OF assms])
    moreover from True m0 have "\<not> lt (snd z) (snd ?res)" by simp
    ultimately show ?thesis by (rule swo_negtrans[OF assms])
  next
    case False
    with m0 show ?thesis by simp
  qed
  have z: "\<not> lt (snd z) (snd ?res)"
  proof (cases "lt (snd z) (snd x)")
    case True
    with m0 show ?thesis by simp
  next
    case False
    moreover from False m0 have "\<not> lt (snd x) (snd ?res)" by simp
    ultimately show ?thesis by (rule swo_negtrans[OF assms])
  qed
  from ih x z show ?case by simp
qed

lemma Heap_Pop_head:
  assumes "Heap_Pop q = Inr (pInfo, h)"
  shows "\<exists>k. (k, pInfo) \<in> set (items q) \<and> h = q\<lparr>items := AList.delete k (items q)\<rparr>"
    and "strictWeakOrder (lessFunc q) \<Longrightarrow> \<forall>e \<in> set (items q). \<not> lessFunc q (snd e) pInfo"
proof -
  from assms obtain x xs where xs: "items q = x # xs"
    and p: "pInfo = snd (minItem (lessFunc q) x xs)"
    and h: "h = q\<lparr>items := AList.delete (fst (minItem (lessFunc q) x xs)) (items q)\<rparr>"
    by (auto simp: Heap_Pop_def Let_def split: list.splits)
  from minItem_mem[of "lessFunc q" x xs] xs p
  have "(fst (minItem (lessFunc q) x xs), pInfo) \<in> set (items q)" by simp
  with h show "\<exists>k. (k, pInfo) \<in> set (items q) \<and> h = q\<lparr>items := AList.delete k (items q)\<rparr>"
    by blast
  show "\<forall>e \<in> set (items q). \<not> lessFunc q (snd e) pInfo" if "strictWeakOrder (lessFunc q)"
    using minItem_min[OF that, of x xs] xs p by simp
qed

lemma Heap_Pop_Inr: "Heap_Len q \<noteq> 0 \<Longrightarrow> \<exists>pInfo h. Heap_Pop q = Inr (pInfo, h)"
  by (cases "Heap_Pop q") (auto dest: Heap_Pop_Inl)

lemma pop_returns_head:
  assumes "Heap_Len (queue aq) \<noteq> 0"
  shows "\<exists>pInfo h. Heap_Pop (queue aq) = Inr (pInfo, h) \<and>
       pop aq =
         (Returned (Some (pInfo\<lparr>Attempts := Attempts pInfo + 1, UnschedulablePlugins := {},
                                  PendingPlugins := {}\<rparr>)) None,
          if isSchedulingQueueHintEnabled aq then
            aq\<lparr>queue := h, schedCycle := schedCycle aq + 1,
               inFlightEvents := inFlightEvents aq @ [(nextElem aq, PodMarker (Pod pInfo))],
               nextElem := Suc (nextElem aq),
               inFlightPods := AList.update (UID (Pod pInfo)) (nextElem aq) (inFlightPods aq)\<rparr>
          else aq\<lparr>queue := h, schedCycle := schedCycle aq + 1\<rparr>)"
proof -
  from Heap_Pop_Inr[OF assms] obtain pInfo h where "Heap_Pop (queue aq) = Inr (pInfo, h)" by blast
  with assms show ?thesis by (auto simp: pop_def Let_def PushBack_def)
qed

subsection \<open>The closed flag\<close>

lemma closed_exec: "closed aq \<Longrightarrow> closed (snd (exec x aq))"
  by (cases x) (auto simp: underLock_def update_aq_def delete_aq_def pop_def Let_def PushBack_def
      addEventIfPodInFlight_def addEventIfAnyInFlight_def done_aq_def close_def broadcast_def
      split: option.splits sum.splits prod.splits if_splits)

lemma closed_run: "closed aq \<Longrightarrow> closed (snd (run xs aq))"
proof (induction xs arbitrary: aq)
  case Nil
  then show ?case by simp
next
  case (Cons x xs)
  from Cons.prems have "closed (snd (exec x aq))" by (rule closed_exec)
  then have "closed (snd (run xs (snd (exec x aq))))" by (rule Cons.IH)
  then show ?case by (simp add: split_beta)
qed

lemma closed_pop_cases:
  "closed aq \<Longrightarrow>
   fst (pop aq) \<noteq> Waiting \<and>
   (Heap_Len (queue aq) = 0 \<longrightarrow> pop aq = (Returned None None, aq)) \<and>
   (Heap_Len (queue aq) \<noteq> 0 \<longrightarrow> (\<exists>pInfo. fst (pop aq) = Returned (Some pInfo) None))"
  by (auto simp: pop_def Let_def split: if_splits sum.splits prod.splits dest: Heap_Pop_Inl)

text \<open>
  Claim C1, as stated, fails: a closed queue whose heap still holds a pod hands that pod out.
  The check of \<open>closed\<close> sits inside the loop that runs only while the heap is empty.
  Here pod \<open>a\<close> is added, the queue is closed, and the next \<open>pop\<close> returns \<open>a\<close>.
\<close>

theorem pop_after_close_returns_pod:
  "closed (snd (run [UnderLockOp [exInfoA], CloseOp] (newActiveQueue exHeap True))) \<and>
   fst (run [UnderLockOp [exInfoA], CloseOp, PopOp] (newActiveQueue exHeap True)) =
     [RUnit, RUnit, RPop (Returned (Some (exInfoA\<lparr>Attempts := 1\<rparr>)) None)]"
  by (simp add: aq_defs ex_defs)

text \<open>
  Claim C1, amended: once \<open>closed\<close> is true it stays true under every later method call, and
  from then on \<open>pop\<close> never waits. When the heap is empty it returns \<open>(nil, nil)\<close> and leaves
  the queue as it is. When the heap is not empty it still pops: it returns, with a nil error,
  the entry that the heap's \<open>Pop\<close> yields (with one more attempt and both plugin sets
  cleared), an entry of the heap that no entry precedes when the comparator is a strict weak
  order; the entry is removed from the heap, the scheduling cycle goes up by one, and with
  hints enabled the pod's marker is appended to the timeline and filed in \<open>inFlightPods\<close>.
\<close>

theorem pop_closed_never_waits:
  assumes "closed aq"
  shows "closed (snd (run ops aq)) \<and>
         fst (pop (snd (run ops aq))) \<noteq> Waiting \<and>
         (Heap_Len (queue (snd (run ops aq))) = 0 \<longrightarrow>
            pop (snd (run ops aq)) = (Returned None None, snd (run ops aq))) \<and>
         (Heap_Len (queue (snd (run ops aq))) \<noteq> 0 \<longrightarrow>
            (\<exists>pInfo. fst (pop (snd (run ops aq))) = Returned (Some pInfo) None)) \<and>
         (Heap_Len (queue (snd (run ops aq))) \<noteq> 0 \<longrightarrow>
            (\<exists>pInfo h k.
               Heap_Pop (queue (snd (run ops aq))) = Inr (pInfo, h) \<and>
               (k, pInfo) \<in> set (items (queue (snd (run ops aq)))) \<and>
               h = (queue (snd (run ops aq)))\<lparr>items := AList.delete k (items (queue (snd (run ops aq))))\<rparr> \<and>
               (strictWeakOrder (lessFunc (queue (snd (run ops aq)))) \<longrightarrow>
                  (\<forall>e \<in> set (items (queue (snd (run ops aq)))).
                      \<not> lessFunc (queue (snd (run ops aq))) (snd e) pInfo)) \<and>
               pop (snd (run ops aq)) =
                 (Returned (Some (pInfo\<lparr>Attempts := Attempts pInfo + 1, UnschedulablePlugins := {},
                                          PendingPlugins := {}\<rparr>)) None,
                  if isSchedulingQueueHintEnabled (snd (run ops aq)) then
                    (snd (run ops aq))\<lparr>queue := h, schedCycle := schedCycle (snd (run ops aq)) + 1,
                       inFlightEvents := inFlightEvents (snd (run ops aq)) @
                         [(nextElem (snd (run ops aq)), PodMarker (Pod pInfo))],
                       nextElem := Suc (nextElem (snd (run ops aq))),
                       inFlightPods := AList.update (UID (Pod pInfo)) (nextElem (snd (run ops aq)))
                         (inFlightPods (snd (run ops aq)))\<rparr>
                  else (snd (run ops aq))\<lparr>queue := h, schedCycle := schedCycle (snd (run ops aq)) + 1\<rparr>)))"
proof -
  let ?aq = "snd (run ops aq)"
  from assms have c: "closed ?aq" by (rule closed_run)
  have strong: "\<exists>pInfo h k.
               Heap_Pop (queue ?aq) = Inr (pInfo, h) \<and>
               (k, pInfo) \<in> set (items (queue ?aq)) \<and>
               h = (queue ?aq)\<lparr>items := AList.delete k (items (queue ?aq))\<rparr> \<and>
               (strictWeakOrder (lessFunc (queue ?aq)) \<longrightarrow>
                  (\<forall>e \<in> set (items (queue ?aq)). \<not> lessFunc (queue ?aq) (snd e) pInfo)) \<and>
               pop ?aq =
                 (Returned (Some (pInfo\<lparr>Attempts := Attempts pInfo + 1, UnschedulablePlugins := {},
                                          PendingPlugins := {}\<rparr>)) None,
                  if isSchedulingQueueHintEnabled ?aq then
                    ?aq\<lparr>queue := h, schedCycle := schedCycle ?aq + 1,
                       inFlightEvents := inFlightEvents ?aq @ [(nextElem ?aq, PodMarker (Pod pInfo))],
                       nextElem := Suc (nextElem ?aq),
                       inFlightPods := AList.update (UID (Pod pInfo)) (nextElem ?aq) (inFlightPods ?aq)\<rparr>
                  else ?aq\<lparr>queue := h, schedCycle := schedCycle ?aq + 1\<rparr>)"
    if n: "Heap_Len (queue ?aq) \<noteq> 0"
  proof -
    from pop_returns_head[OF n] obtain pInfo h where
      hp: "Heap_Pop (queue ?aq) = Inr (pInfo, h)" and
      pp: "pop ?aq =
         (Returned (Some (pInfo\<lparr>Attempts := Attempts pInfo + 1, UnschedulablePlugins := {},
                                  PendingPlugins := {}\<rparr>)) None,
          if isSchedulingQueueHintEnabled ?aq then
            ?aq\<lparr>queue := h, schedCycle := schedCycle ?aq + 1,
               inFlightEvents := inFlightEvents ?aq @ [(nextElem ?aq, PodMarker (Pod pInfo))],
               nextElem := Suc (nextElem ?aq),
               inFlightPods := AList.update (UID (Pod pInfo)) (nextElem ?aq) (inFlightPods ?aq)\<rparr>
          else ?aq\<lparr>queue := h, schedCycle := schedCycle ?aq + 1\<rparr>)" by blast
    from Heap_Pop_head(1)[OF hp] obtain k where
      k1: "(k, pInfo) \<in> set (items (queue ?aq))" and
      k2: "h = (queue ?aq)\<lparr>items := AList.delete k (items (queue ?aq))\<rparr>" by blast
    have mn: "strictWeakOrder (lessFunc (queue ?aq)) \<longrightarrow>
                  (\<forall>e \<in> set (items (queue ?aq)). \<not> lessFunc (queue ?aq) (snd e) pInfo)"
      using Heap_Pop_head(2)[OF hp] by (rule impI)
    from hp k1 k2 mn pp show ?thesis by (intro exI conjI)
  qed
  have w: "fst (pop ?aq) \<noteq> Waiting"
    and e: "Heap_Len (queue ?aq) = 0 \<longrightarrow> pop ?aq = (Returned None None, ?aq)"
    and r: "Heap_Len (queue ?aq) \<noteq> 0 \<longrightarrow> (\<exists>pInfo. fst (pop ?aq) = Returned (Some pInfo) None)"
    using closed_pop_cases[OF c] by blast+
  from strong have s: "Heap_Len (queue ?aq) \<noteq> 0 \<longrightarrow> (\<exists>pInfo h k.
               Heap_Pop (queue ?aq) = Inr (pInfo, h) \<and>
               (k, pInfo) \<in> set (items (queue ?aq)) \<and>
               h = (queue ?aq)\<lparr>items := AList.delete k (items (queue ?aq))\<rparr> \<and>
               (strictWeakOrder (lessFunc (queue ?aq)) \<longrightarrow>
                  (\<forall>e \<in> set (items (queue ?aq)). \<not> lessFunc (queue ?aq) (snd e) pInfo)) \<and>
               pop ?aq =
                 (Returned (Some (pInfo\<lparr>Attempts := Attempts pInfo + 1, UnschedulablePlugins := {},
                                          PendingPlugins := {}\<rparr>)) None,
                  if isSchedulingQueueHintEnabled ?aq then
                    ?aq\<lparr>queue := h, schedCycle := schedCycle ?aq + 1,
                       inFlightEvents := inFlightEvents ?aq @ [(nextElem ?aq, PodMarker (Pod pInfo))],
                       nextElem := Suc (nextElem ?aq),
                       inFlightPods := AList.update (UID (Pod pInfo)) (nextElem ?aq) (inFlightPods ?aq)\<rparr>
                  else ?aq\<lparr>queue := h, schedCycle := schedCycle ?aq + 1\<rparr>))"
    by (rule impI)
  from c w e r s show ?thesis by (intro conjI)
qed

theorem pop_closed_never_waits_witness:
  "closed (close (newActiveQueue exHeap True)) \<and>
   Heap_Len (queue (snd (run [UnderLockOp [exInfoA], PopOp] (close (newActiveQueue exHeap True))))) = 0 \<and>
   pop (snd (run [UnderLockOp [exInfoA], PopOp] (close (newActiveQueue exHeap True)))) =
     (Returned None None, snd (run [UnderLockOp [exInfoA], PopOp] (close (newActiveQueue exHeap True)))) \<and>
   Heap_Len (queue (snd (run [UnderLockOp [exInfoB, exInfoA]] (close (newActiveQueue exHeap True))))) \<noteq> 0 \<and>
   strictWeakOrder (lessFunc (queue (snd (run [UnderLockOp [exInfoB, exInfoA]]
      (close (newActiveQueue exHeap True)))))) \<and>
   (\<exists>pInfo h k.
      Heap_Pop (queue (snd (run [UnderLockOp [exInfoB, exInfoA]] (close (newActiveQueue exHeap True)))))
        = Inr (pInfo, h) \<and>
      (k, pInfo) \<in> set (items (queue (snd (run [UnderLockOp [exInfoB, exInfoA]]
        (close (newActiveQueue exHeap True)))))) \<and>
      (\<forall>e \<in> set (items (queue (snd (run [UnderLockOp [exInfoB, exInfoA]]
        (close (newActiveQueue exHeap True)))))).
          \<not> lessFunc (queue (snd (run [UnderLockOp [exInfoB, exInfoA]]
        (close (newActiveQueue exHeap True))))) (snd e) pInfo) \<and>
      fst (pop (snd (run [UnderLockOp [exInfoB, exInfoA]] (close (newActiveQueue exHeap True))))) =
        Returned (Some (pInfo\<lparr>Attempts := Attempts pInfo + 1, UnschedulablePlugins := {},
                                PendingPlugins := {}\<rparr>)) None \<and>
      queue (snd (pop (snd (run [UnderLockOp [exInfoB, exInfoA]] (close (newActiveQueue exHeap True)))))) = h)"
proof -
  let ?aqE = "snd (run [UnderLockOp [exInfoA], PopOp] (close (newActiveQueue exHeap True)))"
  let ?aqN = "snd (run [UnderLockOp [exInfoB, exInfoA]] (close (newActiveQueue exHeap True)))"
  have c: "closed (close (newActiveQueue exHeap True))" by (simp add: close_def)
  have e: "Heap_Len (queue ?aqE) = 0" by (simp add: aq_defs ex_defs)
  have n: "Heap_Len (queue ?aqN) \<noteq> 0" by (simp add: aq_defs ex_defs)
  have s: "strictWeakOrder (lessFunc (queue ?aqN))"
    by (simp add: aq_defs ex_defs strictWeakOrder_def)
  note tE = pop_closed_never_waits[OF c, of "[UnderLockOp [exInfoA], PopOp]"]
  note tN = pop_closed_never_waits[OF c, of "[UnderLockOp [exInfoB, exInfoA]]"]
  from tE e have pe: "pop ?aqE = (Returned None None, ?aqE)" by blast
  from tN[THEN conjunct2, THEN conjunct2, THEN conjunct2, THEN conjunct2, THEN mp, OF n]
  obtain pInfo h k where
    hp: "Heap_Pop (queue ?aqN) = Inr (pInfo, h)" and
    k: "(k, pInfo) \<in> set (items (queue ?aqN))" and
    mn: "strictWeakOrder (lessFunc (queue ?aqN)) \<longrightarrow>
           (\<forall>e \<in> set (items (queue ?aqN)). \<not> lessFunc (queue ?aqN) (snd e) pInfo)" and
    pp: "pop ?aqN =
                 (Returned (Some (pInfo\<lparr>Attempts := Attempts pInfo + 1, UnschedulablePlugins := {},
                                          PendingPlugins := {}\<rparr>)) None,
                  if isSchedulingQueueHintEnabled ?aqN then
                    ?aqN\<lparr>queue := h, schedCycle := schedCycle ?aqN + 1,
                       inFlightEvents := inFlightEvents ?aqN @ [(nextElem ?aqN, PodMarker (Pod pInfo))],
                       nextElem := Suc (nextElem ?aqN),
                       inFlightPods := AList.update (UID (Pod pInfo)) (nextElem ?aqN) (inFlightPods ?aqN)\<rparr>
                  else ?aqN\<lparr>queue := h, schedCycle := schedCycle ?aqN + 1\<rparr>)"
    by (elim exE conjE)
  from mn s have mn': "\<forall>e \<in> set (items (queue ?aqN)). \<not> lessFunc (queue ?aqN) (snd e) pInfo"
    by (rule mp)
  from pp have p1: "fst (pop ?aqN) = Returned (Some (pInfo\<lparr>Attempts := Attempts pInfo + 1,
        UnschedulablePlugins := {}, PendingPlugins := {}\<rparr>)) None"
    by simp
  from pp have p2: "queue (snd (pop ?aqN)) = h"
    by (simp split: if_splits)
  from hp k mn' p1 p2 have ex: "\<exists>pInfo h k.
      Heap_Pop (queue ?aqN) = Inr (pInfo, h) \<and> (k, pInfo) \<in> set (items (queue ?aqN)) \<and>
      (\<forall>e \<in> set (items (queue ?aqN)). \<not> lessFunc (queue ?aqN) (snd e) pInfo) \<and>
      fst (pop ?aqN) = Returned (Some (pInfo\<lparr>Attempts := Attempts pInfo + 1,
        UnschedulablePlugins := {}, PendingPlugins := {}\<rparr>)) None \<and>
      queue (snd (pop ?aqN)) = h"
    by (intro exI conjI)
  from c e pe n s ex show ?thesis by (intro conjI)
qed

subsection \<open>The error result of pop\<close>

text \<open>
  Claim C10: whenever \<open>pop\<close> returns, its error is nil. It returns a pod, or \<open>(nil, nil)\<close>
  from a closed queue with an empty heap, which it leaves unchanged. The branch that hands on
  an error of the heap's \<open>Pop\<close> is never taken: past the loop the heap is not empty, and
  \<open>Pop\<close> succeeds on a heap that is not empty.
\<close>

theorem pop_error_nil:
  "(\<forall>p e aq'. pop aq = (Returned p e, aq') \<longrightarrow>
      e = None \<and> (p = None \<longrightarrow> closed aq \<and> Heap_Len (queue aq) = 0 \<and> aq' = aq)) \<and>
   (Heap_Len (queue aq) \<noteq> 0 \<longrightarrow> (\<exists>pInfo h. Heap_Pop (queue aq) = Inr (pInfo, h)))"
  by (auto simp: pop_def Let_def split: if_splits sum.splits prod.splits dest: Heap_Pop_Inl)

theorem pop_error_nil_witness:
  "(\<exists>p e aq'. pop (close (newActiveQueue exHeap True)) = (Returned p e, aq') \<and> e = None \<and>
      p = None \<and> aq' = close (newActiveQueue exHeap True)) \<and>
   Heap_Len (queue (underLock [exInfoA] (newActiveQueue exHeap True))) \<noteq> 0 \<and>
   (\<exists>pInfo h. Heap_Pop (queue (underLock [exInfoA] (newActiveQueue exHeap True))) = Inr (pInfo, h))"
proof -
  have p: "pop (close (newActiveQueue exHeap True)) =
             (Returned None None, close (newActiveQueue exHeap True))"
    by (simp add: aq_defs ex_defs)
  have n: "Heap_Len (queue (underLock [exInfoA] (newActiveQueue exHeap True))) \<noteq> 0"
    by (simp add: aq_defs ex_defs)
  from pop_error_nil[of "close (newActiveQueue exHeap True)"]
       pop_error_nil[of "underLock [exInfoA] (newActiveQueue exHeap True)"] p n
  show ?thesis by simp
qed

subsection \<open>Looking up the events of a pod\<close>

text \<open>
  Claim C6: \<open>clusterEventsForPod\<close> returns an error if and only if the UID of the pod is not
  a key of \<open>inFlightPods\<close>, and the error is then \<open>NotInFlight\<close>; when the UID is a key it
  returns a list of events and no error. The call never changes the queue.
\<close>

theorem clusterEventsForPod_error_iff:
  "((\<exists>e. clusterEventsForPod pInfo aq = Inl e) \<longleftrightarrow>
      UID (Pod pInfo) \<notin> dom (map_of (inFlightPods aq))) \<and>
   (UID (Pod pInfo) \<notin> dom (map_of (inFlightPods aq)) \<longrightarrow>
      clusterEventsForPod pInfo aq = Inl NotInFlight) \<and>
   (UID (Pod pInfo) \<in> dom (map_of (inFlightPods aq)) \<longrightarrow>
      (\<exists>evs. clusterEventsForPod pInfo aq = Inr evs)) \<and>
   snd (exec (ClusterEventsForPodOp pInfo) aq) = aq"
  by (auto simp: clusterEventsForPod_def dom_def split: option.splits)

theorem clusterEventsForPod_error_iff_witness:
  "UID (Pod exInfoB) \<notin> dom (map_of (inFlightPods (snd (run [UnderLockOp [exInfoA], PopOp]
      (newActiveQueue exHeap True))))) \<and>
   clusterEventsForPod exInfoB (snd (run [UnderLockOp [exInfoA], PopOp]
      (newActiveQueue exHeap True))) = Inl NotInFlight \<and>
   UID (Pod exInfoA) \<in> dom (map_of (inFlightPods (snd (run [UnderLockOp [exInfoA], PopOp]
      (newActiveQueue exHeap True))))) \<and>
   (\<exists>evs. clusterEventsForPod exInfoA (snd (run [UnderLockOp [exInfoA], PopOp]
      (newActiveQueue exHeap True))) = Inr evs)"
proof -
  have b: "UID (Pod exInfoB) \<notin> dom (map_of (inFlightPods (snd (run [UnderLockOp [exInfoA], PopOp]
      (newActiveQueue exHeap True)))))"
    by (simp add: aq_defs ex_defs)
  have a: "UID (Pod exInfoA) \<in> dom (map_of (inFlightPods (snd (run [UnderLockOp [exInfoA], PopOp]
      (newActiveQueue exHeap True)))))"
    by (simp add: aq_defs ex_defs)
  from clusterEventsForPod_error_iff[of exInfoB
         "snd (run [UnderLockOp [exInfoA], PopOp] (newActiveQueue exHeap True))"]
       clusterEventsForPod_error_iff[of exInfoA
         "snd (run [UnderLockOp [exInfoA], PopOp] (newActiveQueue exHeap True))"] a b
  show ?thesis by blast
qed

subsection \<open>Calling done twice\<close>

text \<open>
  Claim C8: \<open>done\<close> on a UID that is not a key of \<open>inFlightPods\<close> returns with the whole
  queue state unchanged, and calling \<open>done\<close> twice with the same UID leaves the queue in the
  state one call leaves it in.
\<close>

theorem done_idempotent:
  "(map_of (inFlightPods aq) uid = None \<longrightarrow> done_aq uid aq = aq) \<and>
   done_aq uid (done_aq uid aq) = done_aq uid aq"
  by (simp add: done_aq_def delete_conv split: option.splits)

theorem done_idempotent_witness:
  "map_of (inFlightPods (snd (run [UnderLockOp [exInfoA], PopOp] (newActiveQueue exHeap True)))) ''b''
     = None \<and>
   done_aq ''b'' (snd (run [UnderLockOp [exInfoA], PopOp] (newActiveQueue exHeap True))) =
     snd (run [UnderLockOp [exInfoA], PopOp] (newActiveQueue exHeap True)) \<and>
   map_of (inFlightPods (snd (run [UnderLockOp [exInfoA], PopOp] (newActiveQueue exHeap True)))) ''a''
     \<noteq> None \<and>
   done_aq ''a'' (done_aq ''a'' (snd (run [UnderLockOp [exInfoA], PopOp] (newActiveQueue exHeap True)))) =
     done_aq ''a'' (snd (run [UnderLockOp [exInfoA], PopOp] (newActiveQueue exHeap True)))"
proof -
  have b: "map_of (inFlightPods (snd (run [UnderLockOp [exInfoA], PopOp]
             (newActiveQueue exHeap True)))) ''b'' = None"
    by (simp add: aq_defs ex_defs)
  have a: "map_of (inFlightPods (snd (run [UnderLockOp [exInfoA], PopOp]
             (newActiveQueue exHeap True)))) ''a'' \<noteq> None"
    by (simp add: aq_defs ex_defs)
  from done_idempotent[of "snd (run [UnderLockOp [exInfoA], PopOp] (newActiveQueue exHeap True))" "''b''"]
       done_idempotent[of "snd (run [UnderLockOp [exInfoA], PopOp] (newActiveQueue exHeap True))" "''a''"]
       a b
  show ?thesis by blast
qed

subsection \<open>The scheduling cycle\<close>

lemma schedCycle_exec:
  "schedCycle (snd (exec x aq)) =
     (if successfulPop (fst (exec x aq)) then schedCycle aq + 1 else schedCycle aq)"
  by (cases x) (auto simp: successfulPop_def underLock_def update_aq_def delete_aq_def pop_def
      Let_def PushBack_def addEventIfPodInFlight_def addEventIfAnyInFlight_def done_aq_def
      close_def broadcast_def split: option.splits sum.splits prod.splits if_splits)

lemma schedCycle_run:
  "schedCycle (snd (run xs aq)) =
     schedCycle aq + word_of_nat (length (filter successfulPop (fst (run xs aq))))"
proof (induction xs arbitrary: aq)
  case Nil
  then show ?case by simp
next
  case (Cons x xs)
  show ?case
    using Cons.IH[of "snd (exec x aq)"] schedCycle_exec[of x aq]
    by (simp add: split_beta)
qed

lemma sint_word_of_nat_small:
  assumes "n < 2 ^ 63"
  shows "sint (word_of_nat n :: 64 word) = int n"
proof -
  have "sint (word_of_nat n :: 64 word) = signed_take_bit 63 (int n)"
    using sint_sbintrunc'[where 'a=64, of "int n"] by simp
  also have "\<dots> = int n"
    using assms by (simp add: signed_take_bit_int_eq_self_iff)
  finally show ?thesis .
qed

text \<open>
  Claim C7: after every sequence of method calls on a new queue, the value \<open>schedulingCycle\<close>
  returns is the number of successful pops of the sequence, as a 64-bit integer: it is that
  number modulo \<open>2 ^ 64\<close>, and it is that number exactly, read as a signed integer, below
  \<open>2 ^ 63\<close> pops. Every successful pop adds one to the counter; no other call changes it.
\<close>

theorem schedCycle_counts_successful_pops:
  "schedulingCycle (snd (run ops (newActiveQueue h hints))) =
     word_of_nat (length (filter successfulPop (fst (run ops (newActiveQueue h hints))))) \<and>
   (length (filter successfulPop (fst (run ops (newActiveQueue h hints)))) < 2 ^ 63 \<longrightarrow>
      sint (schedulingCycle (snd (run ops (newActiveQueue h hints)))) =
        int (length (filter successfulPop (fst (run ops (newActiveQueue h hints)))))) \<and>
   schedCycle (snd (exec x aq)) =
     (if successfulPop (fst (exec x aq)) then schedCycle aq + 1 else schedCycle aq)"
proof -
  have eq: "schedulingCycle (snd (run ops (newActiveQueue h hints))) =
     word_of_nat (length (filter successfulPop (fst (run ops (newActiveQueue h hints)))))"
    using schedCycle_run[of ops "newActiveQueue h hints"]
    by (simp add: schedulingCycle_def newActiveQueue_def)
  show ?thesis
    using eq sint_word_of_nat_small schedCycle_exec by simp
qed

theorem schedCycle_counts_successful_pops_witness:
  "length (filter successfulPop (fst (run [PopOp, UnderLockOp [exInfoA, exInfoB], PopOp, CloseOp, PopOp, PopOp]
      (newActiveQueue exHeap True)))) = 2 \<and>
   (2::nat) < 2 ^ 63 \<and>
   sint (schedulingCycle (snd (run [PopOp, UnderLockOp [exInfoA, exInfoB], PopOp, CloseOp, PopOp, PopOp]
      (newActiveQueue exHeap True)))) = 2"
proof -
  have n: "length (filter successfulPop (fst (run [PopOp, UnderLockOp [exInfoA, exInfoB], PopOp, CloseOp,
      PopOp, PopOp] (newActiveQueue exHeap True)))) = 2"
    by (simp add: aq_defs ex_defs)
  from schedCycle_counts_successful_pops[of "[PopOp, UnderLockOp [exInfoA, exInfoB], PopOp, CloseOp,
      PopOp, PopOp]" exHeap True] n
  show ?thesis by simp
qed

subsection \<open>The timeline\<close>

lemma collectEvents_append: "collectEvents (xs @ ys) = collectEvents xs @ collectEvents ys"
  by (induction xs rule: collectEvents.induct) simp_all

lemma nextElems_append:
  "r \<in> fst ` set l \<Longrightarrow> nextElems r (l @ [e]) = nextElems r l @ [e]"
  by (induction l) (auto simp: nextElems_def)

lemma nextElems_fresh:
  "r \<notin> fst ` set l \<Longrightarrow> nextElems r (l @ [(r, v)]) = []"
  by (induction l) (auto simp: nextElems_def)

lemma pruneFront_marker:
  "(i, PodMarker p) \<in> set l \<Longrightarrow> (i, PodMarker p) \<in> set (pruneFront l)"
  by (induction l rule: pruneFront.induct) auto

lemma pruneFront_subset: "set (pruneFront l) \<subseteq> set l"
  by (induction l rule: pruneFront.induct) auto

lemma pruneFront_distinct: "distinct (map fst l) \<Longrightarrow> distinct (map fst (pruneFront l))"
  by (induction l rule: pruneFront.induct) auto

lemma nextElems_pruneFront:
  "(r, PodMarker p) \<in> set l \<Longrightarrow> distinct (map fst l) \<Longrightarrow> nextElems r (pruneFront l) = nextElems r l"
proof (induction l rule: pruneFront.induct)
  case 1
  then show ?case by simp
next
  case (2 i e l)
  then have "r \<noteq> i" by (auto simp: image_iff)
  with 2 show ?case by (auto simp: nextElems_def)
next
  case (3 i p l)
  then show ?case by simp
qed

lemma collect_nextElems_Remove:
  "distinct (map fst l) \<Longrightarrow> r' \<noteq> r \<Longrightarrow> (r', PodMarker q) \<in> set l \<Longrightarrow>
   collectEvents (nextElems r (Remove r' l)) = collectEvents (nextElems r l)"
proof (induction l)
  case Nil
  then show ?case by simp
next
  case (Cons a l)
  show ?case
  proof (cases "fst a = r")
    case True
    have "collectEvents (filter (\<lambda>e. fst e \<noteq> r') l) = collectEvents l"
      if "distinct (map fst l)" "\<forall>e. (r', EventRecord e) \<notin> set l" for l
      using that by (induction l rule: collectEvents.induct) auto
    moreover have "\<forall>e. (r', EventRecord e) \<notin> set l"
    proof (intro allI notI)
      fix e assume e: "(r', EventRecord e) \<in> set l"
      from Cons.prems(3) have "a = (r', PodMarker q) \<or> (r', PodMarker q) \<in> set l" by auto
      then show False
      proof
        assume "a = (r', PodMarker q)"
        with Cons.prems(1) e show False by (auto simp: image_iff)
      next
        assume "(r', PodMarker q) \<in> set l"
        with Cons.prems(1) e have "PodMarker q = EventRecord e"
          using eq_key_imp_eq_value[of l r' "PodMarker q" "EventRecord e"] by simp
        then show False by simp
      qed
    qed
    ultimately show ?thesis using True Cons.prems by (auto simp: nextElems_def Remove_def)
  next
    case False
    show ?thesis
    proof (cases "fst a = r'")
      case True
      then have "r' \<notin> fst ` set l" using Cons.prems by auto
      then have "filter (\<lambda>e. fst e \<noteq> r') l = l" by (induction l) auto
      with True False show ?thesis by (auto simp: nextElems_def Remove_def)
    next
      case F2: False
      then have "(r', PodMarker q) \<in> set l" using Cons.prems by auto
      with Cons False F2 show ?thesis by (auto simp: nextElems_def Remove_def)
    qed
  qed
qed

lemma frontIsPod_pruneFront: "frontIsPod (pruneFront l)"
  by (induction l rule: pruneFront.induct) (simp_all add: frontIsPod_def)

lemma frontIsPod_append: "frontIsPod l \<Longrightarrow> l \<noteq> [] \<Longrightarrow> frontIsPod (l @ [e])"
  by (cases l) (auto simp: frontIsPod_def split: entry.splits)

subsection \<open>Every reachable state is well-formed\<close>

lemma wfT_marker:
  "wfT al l n \<Longrightarrow> map_of al u = Some r \<Longrightarrow> \<exists>p. (r, PodMarker p) \<in> set l \<and> UID p = u"
  unfolding wfT_def by blast

lemma wfT_distinct: "wfT al l n \<Longrightarrow> distinct (map fst l)"
  unfolding wfT_def by blast

lemma wfT_bound: "wfT al l n \<Longrightarrow> e \<in> set l \<Longrightarrow> fst e < n"
  unfolding wfT_def by blast

lemma wfT_front: "wfT al l n \<Longrightarrow> frontIsPod l"
  unfolding wfT_def by blast

lemma wf_new: "wf (newActiveQueue h hints)"
  by (simp add: wf_def wfT_def newActiveQueue_def frontIsPod_def)

lemma nonempty_map: "al \<noteq> [] \<Longrightarrow> \<exists>u r. map_of al u = Some r"
  by (cases al) auto

lemma wfT_event:
  assumes "wfT al l n" "al \<noteq> []"
  shows "wfT al (l @ [(n, EventRecord e)]) (Suc n)"
proof -
  from nonempty_map[OF assms(2)] obtain u r where "map_of al u = Some r" by blast
  with wfT_marker[OF assms(1)] have ne: "l \<noteq> []" by fastforce
  have f: "frontIsPod (l @ [(n, EventRecord e)])"
    using frontIsPod_append[OF wfT_front[OF assms(1)] ne] .
  have d: "distinct (map fst (l @ [(n, EventRecord e)]))"
    using wfT_distinct[OF assms(1)] wfT_bound[OF assms(1)] by fastforce
  have b: "\<forall>x \<in> set (l @ [(n, EventRecord e)]). fst x < Suc n"
    using wfT_bound[OF assms(1)] by fastforce
  have m: "\<forall>u r. map_of al u = Some r \<longrightarrow>
        (\<exists>p. (r, PodMarker p) \<in> set (l @ [(n, EventRecord e)]) \<and> UID p = u)"
    using wfT_marker[OF assms(1)] by fastforce
  from f d b m show ?thesis unfolding wfT_def by blast
qed

lemma wfT_mark:
  assumes "wfT al l n"
  shows "wfT (AList.update (UID p) n al) (l @ [(n, PodMarker p)]) (Suc n)"
proof -
  have f: "frontIsPod (l @ [(n, PodMarker p)])"
    using wfT_front[OF assms] by (cases l) (auto simp: frontIsPod_def split: entry.splits)
  have d: "distinct (map fst (l @ [(n, PodMarker p)]))"
    using wfT_distinct[OF assms] wfT_bound[OF assms] by fastforce
  have b: "\<forall>x \<in> set (l @ [(n, PodMarker p)]). fst x < Suc n"
    using wfT_bound[OF assms] by fastforce
  have m: "\<forall>u r. map_of (AList.update (UID p) n al) u = Some r \<longrightarrow>
        (\<exists>q. (r, PodMarker q) \<in> set (l @ [(n, PodMarker p)]) \<and> UID q = u)"
    using wfT_marker[OF assms] by (fastforce simp: update_conv split: if_splits)
  from f d b m show ?thesis unfolding wfT_def by blast
qed

lemma wfT_done:
  assumes "wfT al l n" "map_of al v = Some rv"
  shows "wfT (AList.delete v al) (pruneFront (Remove rv l)) n"
proof -
  from wfT_marker[OF assms] obtain pv where pv: "(rv, PodMarker pv) \<in> set l" "UID pv = v"
    by blast
  have d: "distinct (map fst l)" using assms(1) by (rule wfT_distinct)
  have d': "distinct (map fst (pruneFront (Remove rv l)))"
    using d by (simp add: pruneFront_distinct Remove_def distinct_map_filter)
  have b: "\<forall>e \<in> set (pruneFront (Remove rv l)). fst e < n"
    using wfT_bound[OF assms(1)] pruneFront_subset[of "Remove rv l"] by (auto simp: Remove_def)
  have m: "\<exists>p. (r, PodMarker p) \<in> set (pruneFront (Remove rv l)) \<and> UID p = u"
    if "map_of (AList.delete v al) u = Some r" for u r
  proof -
    from that have uv: "u \<noteq> v" and ur: "map_of al u = Some r"
      by (auto simp: delete_conv split: if_splits)
    from wfT_marker[OF assms(1) ur] obtain p where p: "(r, PodMarker p) \<in> set l" "UID p = u"
      by blast
    have "r \<noteq> rv"
    proof
      assume "r = rv"
      with p pv d have "PodMarker p = PodMarker pv"
        using eq_key_imp_eq_value[of l rv "PodMarker p" "PodMarker pv"] by simp
      with p pv uv show False by simp
    qed
    with p have "(r, PodMarker p) \<in> set (Remove rv l)" by (simp add: Remove_def)
    then have "(r, PodMarker p) \<in> set (pruneFront (Remove rv l))" by (rule pruneFront_marker)
    with p show ?thesis by blast
  qed
  from d' b m frontIsPod_pruneFront[of "Remove rv l"] show ?thesis unfolding wfT_def by blast
qed

lemma pop_cases:
  assumes "pop aq = (res, aq')"
  shows "(aq' = aq \<and> (res = Waiting \<or> res = Returned None None)) \<or>
    (\<exists>pInfo h. Heap_Pop (queue aq) = Inr (pInfo, h) \<and>
       res = Returned (Some (pInfo\<lparr>Attempts := Attempts pInfo + 1, UnschedulablePlugins := {},
                                  PendingPlugins := {}\<rparr>)) None \<and>
       aq' = (if isSchedulingQueueHintEnabled aq then
                aq\<lparr>queue := h, schedCycle := schedCycle aq + 1,
                   inFlightEvents := inFlightEvents aq @ [(nextElem aq, PodMarker (Pod pInfo))],
                   nextElem := Suc (nextElem aq),
                   inFlightPods := AList.update (UID (Pod pInfo)) (nextElem aq) (inFlightPods aq)\<rparr>
              else aq\<lparr>queue := h, schedCycle := schedCycle aq + 1\<rparr>))"
  using assms
  by (auto simp: pop_def Let_def PushBack_def split: if_splits sum.splits prod.splits dest: Heap_Pop_Inl)

lemma wf_pop: assumes "wf aq" shows "wf (snd (pop aq))"
proof (cases "pop aq")
  case (Pair res aq')
  from pop_cases[OF Pair] assms wfT_mark[of "inFlightPods aq" "inFlightEvents aq" "nextElem aq"]
  have "wf aq'" by (auto simp: wf_def split: if_splits)
  with Pair show ?thesis by simp
qed

lemma wf_done: assumes "wf aq" shows "wf (done_aq v aq)"
  using assms wfT_done[of "inFlightPods aq" "inFlightEvents aq" "nextElem aq" v]
  by (auto simp: done_aq_def wf_def split: option.splits)

lemma wf_addEventIfPodInFlight:
  assumes "wf aq"
  shows "wf (snd (addEventIfPodInFlight oldPod newPod ev aq))"
proof (cases "map_of (inFlightPods aq) (UID newPod)")
  case None
  with assms show ?thesis by (simp add: addEventIfPodInFlight_def)
next
  case (Some r)
  then have "inFlightPods aq \<noteq> []" by auto
  from wfT_event[OF assms[unfolded wf_def] this] Some show ?thesis
    by (simp add: addEventIfPodInFlight_def PushBack_def wf_def)
qed

lemma wf_addEventIfAnyInFlight: "wf aq \<Longrightarrow> wf (snd (addEventIfAnyInFlight old new ev aq))"
  using wfT_event[of "inFlightPods aq" "inFlightEvents aq" "nextElem aq"]
  by (auto simp: addEventIfAnyInFlight_def PushBack_def wf_def)

lemma wf_exec: assumes "wf aq" shows "wf (snd (exec x aq))"
proof (cases x)
  case PopOp
  with wf_pop[OF assms] show ?thesis by (simp add: split_beta)
next
  case (DoneOp v)
  with assms show ?thesis by (simp add: wf_done)
next
  case (AddEventIfPodInFlightOp oldPod newPod ev)
  with wf_addEventIfPodInFlight[OF assms] show ?thesis by (simp add: split_beta)
next
  case (AddEventIfAnyInFlightOp old new ev)
  with wf_addEventIfAnyInFlight[OF assms] show ?thesis by (simp add: split_beta)
qed (use assms in \<open>auto simp: wf_def underLock_def update_aq_def delete_aq_def close_def broadcast_def Let_def
      split: option.splits sum.splits\<close>)

lemma wf_run: "wf aq \<Longrightarrow> wf (snd (run xs aq))"
proof (induction xs arbitrary: aq)
  case Nil
  then show ?case by simp
next
  case (Cons x xs)
  from Cons.IH[OF wf_exec[OF Cons.prems, of x]] show ?case by (simp add: split_beta)
qed

subsection \<open>Events recorded while a pod is in flight\<close>

lemma hints_exec: "isSchedulingQueueHintEnabled (snd (exec x aq)) = isSchedulingQueueHintEnabled aq"
  by (cases x) (auto simp: underLock_def update_aq_def delete_aq_def pop_def Let_def PushBack_def
      addEventIfPodInFlight_def addEventIfAnyInFlight_def done_aq_def close_def broadcast_def
      split: option.splits sum.splits prod.splits if_splits)

lemma hints_run: "isSchedulingQueueHintEnabled (snd (run xs aq)) = isSchedulingQueueHintEnabled aq"
proof (induction xs arbitrary: aq)
  case Nil
  then show ?case by simp
next
  case (Cons x xs)
  from Cons.IH[of "snd (exec x aq)"] hints_exec[of x aq] show ?case by (simp add: split_beta)
qed

lemma marker_in_ids: "(r, v) \<in> set l \<Longrightarrow> r \<in> fst ` set l"
  by (force simp: image_iff)

lemma step_pop:
  assumes w: "wf aq" and h: "isSchedulingQueueHintEnabled aq"
    and m: "map_of (inFlightPods aq) u = Some r"
    and p: "pop aq = (res, aq')"
  shows "\<exists>r'. map_of (inFlightPods aq') u = Some r' \<and>
           eventsAfter r' aq' = (if poppedUID u (RPop res) then [] else eventsAfter r aq)"
proof -
  let ?l = "inFlightEvents aq" and ?n = "nextElem aq"
  from w have wT: "wfT (inFlightPods aq) ?l ?n" by (simp add: wf_def)
  from wfT_marker[OF wT m] obtain q where q: "(r, PodMarker q) \<in> set ?l" by blast
  then have rin: "r \<in> fst ` set ?l" by (rule marker_in_ids)
  have fresh: "?n \<notin> fst ` set ?l" using wfT_bound[OF wT] by fastforce
  from pop_cases[OF p] show ?thesis
  proof
    assume "aq' = aq \<and> (res = Waiting \<or> res = Returned None None)"
    with m show ?thesis by (auto simp: poppedUID_def)
  next
    assume "\<exists>pInfo h. Heap_Pop (queue aq) = Inr (pInfo, h) \<and>
       res = Returned (Some (pInfo\<lparr>Attempts := Attempts pInfo + 1, UnschedulablePlugins := {},
                                  PendingPlugins := {}\<rparr>)) None \<and>
       aq' = (if isSchedulingQueueHintEnabled aq then
                aq\<lparr>queue := h, schedCycle := schedCycle aq + 1,
                   inFlightEvents := inFlightEvents aq @ [(nextElem aq, PodMarker (Pod pInfo))],
                   nextElem := Suc (nextElem aq),
                   inFlightPods := AList.update (UID (Pod pInfo)) (nextElem aq) (inFlightPods aq)\<rparr>
              else aq\<lparr>queue := h, schedCycle := schedCycle aq + 1\<rparr>)"
    then obtain pInfo hp where
      res: "res = Returned (Some (pInfo\<lparr>Attempts := Attempts pInfo + 1, UnschedulablePlugins := {},
                                  PendingPlugins := {}\<rparr>)) None"
      and aq': "aq' = aq\<lparr>queue := hp, schedCycle := schedCycle aq + 1,
                   inFlightEvents := ?l @ [(?n, PodMarker (Pod pInfo))],
                   nextElem := Suc ?n,
                   inFlightPods := AList.update (UID (Pod pInfo)) ?n (inFlightPods aq)\<rparr>"
      using h by auto
    show ?thesis
    proof (cases "UID (Pod pInfo) = u")
      case True
      then have "poppedUID u (RPop res)" by (simp add: res poppedUID_def)
      moreover have "map_of (inFlightPods aq') u = Some ?n" using True by (simp add: aq' update_conv)
      moreover have "eventsAfter ?n aq' = []"
        using nextElems_fresh[OF fresh] by (simp add: eventsAfter_def aq')
      ultimately show ?thesis by auto
    next
      case False
      then have "\<not> poppedUID u (RPop res)" by (simp add: res poppedUID_def)
      moreover have "map_of (inFlightPods aq') u = Some r"
        using False m by (simp add: aq' update_conv)
      moreover have "eventsAfter r aq' = eventsAfter r aq"
        using nextElems_append[OF rin] by (simp add: eventsAfter_def aq' collectEvents_append)
      ultimately show ?thesis by auto
    qed
  qed
qed

lemma step_done:
  assumes w: "wf aq" and m: "map_of (inFlightPods aq) u = Some r" and uv: "v \<noteq> u"
  shows "map_of (inFlightPods (done_aq v aq)) u = Some r \<and>
         eventsAfter r (done_aq v aq) = eventsAfter r aq"
proof (cases "map_of (inFlightPods aq) v")
  case None
  with m show ?thesis by (simp add: done_aq_def)
next
  case (Some rv)
  let ?l = "inFlightEvents aq"
  from w have wT: "wfT (inFlightPods aq) ?l (nextElem aq)" by (simp add: wf_def)
  have d: "distinct (map fst ?l)" using wT by (rule wfT_distinct)
  from wfT_marker[OF wT m] obtain p where p: "(r, PodMarker p) \<in> set ?l" "UID p = u" by blast
  from wfT_marker[OF wT Some] obtain pv where pv: "(rv, PodMarker pv) \<in> set ?l" "UID pv = v" by blast
  have ne: "rv \<noteq> r"
  proof
    assume "rv = r"
    with p pv d have "PodMarker p = PodMarker pv"
      using eq_key_imp_eq_value[of ?l r "PodMarker p" "PodMarker pv"] by simp
    with p pv uv show False by simp
  qed
  have in': "(r, PodMarker p) \<in> set (Remove rv ?l)" using p ne by (simp add: Remove_def)
  have d': "distinct (map fst (Remove rv ?l))" using d by (simp add: Remove_def distinct_map_filter)
  have "collectEvents (nextElems r (pruneFront (Remove rv ?l))) = collectEvents (nextElems r ?l)"
    using nextElems_pruneFront[OF in' d'] collect_nextElems_Remove[OF d ne pv(1)] by simp
  moreover have "map_of (AList.delete v (inFlightPods aq)) u = Some r"
    using m uv by (simp add: delete_conv)
  ultimately show ?thesis using Some by (simp add: done_aq_def eventsAfter_def)
qed

lemma step_event:
  assumes w: "wf aq" and m: "map_of (inFlightPods aq) u = Some r"
  shows "eventsAfter r (snd (PushBack (EventRecord e) aq)) = eventsAfter r aq @ [e]"
proof -
  from w have wT: "wfT (inFlightPods aq) (inFlightEvents aq) (nextElem aq)" by (simp add: wf_def)
  from wfT_marker[OF wT m] obtain q where "(r, PodMarker q) \<in> set (inFlightEvents aq)" by blast
  then have "r \<in> fst ` set (inFlightEvents aq)" by (rule marker_in_ids)
  from nextElems_append[OF this] show ?thesis
    by (simp add: eventsAfter_def PushBack_def collectEvents_append)
qed

lemma step_exec:
  assumes w: "wf aq" and h: "isSchedulingQueueHintEnabled aq"
    and m: "map_of (inFlightPods aq) u = Some r"
    and x: "x \<noteq> DoneOp u"
  shows "\<exists>r'. map_of (inFlightPods (snd (exec x aq))) u = Some r' \<and>
           eventsAfter r' (snd (exec x aq)) =
             (if poppedUID u (fst (exec x aq)) then []
              else eventsAfter r aq @ recorded x (fst (exec x aq)))"
proof (cases x)
  case PopOp
  obtain res aq' where p: "pop aq = (res, aq')" by (cases "pop aq")
  from step_pop[OF w h m p] PopOp p show ?thesis by (auto simp: recorded_def)
next
  case (DoneOp v)
  with x have "v \<noteq> u" by simp
  from step_done[OF w m this] DoneOp show ?thesis by (simp add: recorded_def poppedUID_def)
next
  case (AddEventIfPodInFlightOp oldPod newPod ev)
  show ?thesis
  proof (cases "map_of (inFlightPods aq) (UID newPod)")
    case None
    with m AddEventIfPodInFlightOp show ?thesis
      by (simp add: addEventIfPodInFlight_def recorded_def poppedUID_def)
  next
    case (Some a)
    have "inFlightPods (snd (PushBack (EventRecord e) aq)) = inFlightPods aq" for e
      by (simp add: PushBack_def)
    with step_event[OF w m] m Some AddEventIfPodInFlightOp show ?thesis
      by (simp add: addEventIfPodInFlight_def recorded_def poppedUID_def)
  qed
next
  case (AddEventIfAnyInFlightOp old new ev)
  from m have ne: "inFlightPods aq \<noteq> []" by auto
  have "inFlightPods (snd (PushBack (EventRecord e) aq)) = inFlightPods aq" for e
    by (simp add: PushBack_def)
  with step_event[OF w m] m ne AddEventIfAnyInFlightOp show ?thesis
    by (simp add: addEventIfAnyInFlight_def recorded_def poppedUID_def)
qed (use m in \<open>auto simp: eventsAfter_def underLock_def update_aq_def delete_aq_def close_def
      broadcast_def Let_def recorded_def poppedUID_def split: option.splits sum.splits\<close>)

lemma run_events:
  assumes "wf aq" "isSchedulingQueueHintEnabled aq" "map_of (inFlightPods aq) u = Some r"
    "DoneOp u \<notin> set xs"
  shows "\<exists>r'. map_of (inFlightPods (snd (run xs aq))) u = Some r' \<and>
           eventsAfter r' (snd (run xs aq)) =
             eventsSince u (eventsAfter r aq) (zip xs (fst (run xs aq)))"
  using assms
proof (induction xs arbitrary: aq r)
  case Nil
  then show ?case by simp
next
  case (Cons x xs)
  let ?aq1 = "snd (exec x aq)"
  from Cons.prems have x: "x \<noteq> DoneOp u" and xs: "DoneOp u \<notin> set xs" by auto
  from step_exec[OF Cons.prems(1-3) x] obtain r1 where
    r1: "map_of (inFlightPods ?aq1) u = Some r1"
    and e1: "eventsAfter r1 ?aq1 = (if poppedUID u (fst (exec x aq)) then []
              else eventsAfter r aq @ recorded x (fst (exec x aq)))" by blast
  have w1: "wf ?aq1" using Cons.prems(1) by (rule wf_exec)
  have h1: "isSchedulingQueueHintEnabled ?aq1" using Cons.prems(2) by (simp add: hints_exec)
  from Cons.IH[OF w1 h1 r1 xs] e1 show ?case by (simp add: split_beta)
qed

lemma eventsSince_no_pop:
  "\<not> list_ex (poppedUID u) (map snd zs) \<Longrightarrow>
   eventsSince u acc zs = acc @ concat (map (\<lambda>(x, r). recorded x r) zs)"
  by (induction zs arbitrary: acc) auto

lemma run_length: "length (fst (run xs aq)) = length xs"
  by (induction xs arbitrary: aq) (simp_all add: split_beta)

text \<open>
  Claim C2, as stated, fails when the pod is popped a second time before \<open>done\<close>: the
  second pop files a new marker under the UID, and the events between the two markers are
  no longer returned. Here pod \<open>a\<close> is popped, an event is appended, \<open>a\<close> is added and
  popped again; \<open>clusterEventsForPod\<close> for \<open>a\<close> returns no event, although the event is in
  the timeline behind the first marker of \<open>a\<close> and \<open>done\<close> was never called.
\<close>

theorem second_pop_hides_earlier_events:
  "fst (run [UnderLockOp [exInfoA], PopOp,
             AddEventIfAnyInFlightOp NilObj (OtherObj ''node-1'') NodeAdd,
             UnderLockOp [exInfoA], PopOp,
             ClusterEventsForPodOp (exInfoA\<lparr>Attempts := 1\<rparr>)]
          (newActiveQueue exHeap True)) =
     [RUnit, RPop (Returned (Some (exInfoA\<lparr>Attempts := 1\<rparr>)) None), RBool True,
      RUnit, RPop (Returned (Some (exInfoA\<lparr>Attempts := 1\<rparr>)) None), REvents (Inr [])] \<and>
   listInFlightEvents (snd (run [UnderLockOp [exInfoA], PopOp,
             AddEventIfAnyInFlightOp NilObj (OtherObj ''node-1'') NodeAdd,
             UnderLockOp [exInfoA], PopOp] (newActiveQueue exHeap True))) =
     [PodMarker exPodA,
      EventRecord \<lparr>event = NodeAdd, oldObj = NilObj, newObj = OtherObj ''node-1''\<rparr>,
      PodMarker exPodA]"
  by (simp add: aq_defs ex_defs)

text \<open>
  Claim C2, amended: let a pod be popped from a queue with hints enabled, and let any sequence
  of method calls follow that does not call \<open>done\<close> for the pod. If the pod is not popped
  again in that sequence, \<open>clusterEventsForPod\<close> for the pod returns, without error, exactly
  the events that the calls of \<open>addEventIfPodInFlight\<close> and \<open>addEventIfAnyInFlight\<close> appended
  after the pod's marker, in the order in which they were appended; the markers of other pods
  are not part of the result. In general it returns the events appended since the most
  recent pop of the pod's UID.
\<close>

theorem events_between_pop_and_done:
  assumes "aq0 = snd (run ops0 (newActiveQueue h True))"
    and "pop aq0 = (Returned (Some pInfo) err, aq1)"
    and "DoneOp (UID (Pod pInfo)) \<notin> set ops"
    and "run ops aq1 = (rs, aq2)"
  shows "clusterEventsForPod pInfo aq2 = Inr (eventsSince (UID (Pod pInfo)) [] (zip ops rs)) \<and>
         (\<not> list_ex (poppedUID (UID (Pod pInfo))) rs \<longrightarrow>
            clusterEventsForPod pInfo aq2 = Inr (concat (map2 recorded ops rs)))"
proof -
  let ?u = "UID (Pod pInfo)"
  have w0: "wf aq0" unfolding assms(1) using wf_new by (rule wf_run)
  have h0: "isSchedulingQueueHintEnabled aq0"
    unfolding assms(1) by (simp add: hints_run newActiveQueue_def)
  have w1: "wf aq1" using wf_pop[OF w0] assms(2) by simp
  have h1: "isSchedulingQueueHintEnabled aq1"
    using hints_exec[of PopOp aq0] h0 assms(2) by simp
  from w0 have wT: "wfT (inFlightPods aq0) (inFlightEvents aq0) (nextElem aq0)" by (simp add: wf_def)
  have fresh: "nextElem aq0 \<notin> fst ` set (inFlightEvents aq0)" using wfT_bound[OF wT] by fastforce
  from pop_cases[OF assms(2)] h0 obtain q hp where
    pi: "pInfo = q\<lparr>Attempts := Attempts q + 1, UnschedulablePlugins := {}, PendingPlugins := {}\<rparr>"
    and aq1: "aq1 = aq0\<lparr>queue := hp, schedCycle := schedCycle aq0 + 1,
                   inFlightEvents := inFlightEvents aq0 @ [(nextElem aq0, PodMarker (Pod q))],
                   nextElem := Suc (nextElem aq0),
                   inFlightPods := AList.update (UID (Pod q)) (nextElem aq0) (inFlightPods aq0)\<rparr>"
    by auto
  have m1: "map_of (inFlightPods aq1) ?u = Some (nextElem aq0)"
    by (simp add: aq1 pi update_conv)
  have e1: "eventsAfter (nextElem aq0) aq1 = []"
    using nextElems_fresh[OF fresh] by (simp add: eventsAfter_def aq1)
  from run_events[OF w1 h1 m1 assms(3)] assms(4) e1 obtain r' where
    "map_of (inFlightPods aq2) ?u = Some r'"
    "eventsAfter r' aq2 = eventsSince ?u [] (zip ops rs)" by auto
  then have main: "clusterEventsForPod pInfo aq2 = Inr (eventsSince ?u [] (zip ops rs))"
    by (simp add: clusterEventsForPod_def eventsAfter_def)
  have len: "length rs = length ops"
    using run_length[of ops aq1] assms(4) by simp
  then have "map snd (zip ops rs) = rs" by (simp add: map_snd_zip)
  with eventsSince_no_pop[of ?u "zip ops rs" "[]"] main show ?thesis by simp
qed


theorem events_between_pop_and_done_witness:
  "pop (snd (run [UnderLockOp [exInfoA, exInfoB]] (newActiveQueue exHeap True))) =
     (Returned (Some (exInfoA\<lparr>Attempts := 1\<rparr>)) None,
      snd (run [UnderLockOp [exInfoA, exInfoB], PopOp] (newActiveQueue exHeap True))) \<and>
   DoneOp (UID (Pod (exInfoA\<lparr>Attempts := 1\<rparr>))) \<notin>
     set [AddEventIfAnyInFlightOp NilObj (OtherObj ''node-1'') NodeAdd, PopOp,
          AddEventIfPodInFlightOp (Some exPodB) exPodB PodUpdate, DoneOp ''b'',
          AddEventIfPodInFlightOp None exPodB PodUpdate] \<and>
   \<not> list_ex (poppedUID (UID (Pod (exInfoA\<lparr>Attempts := 1\<rparr>))))
       (fst (run [AddEventIfAnyInFlightOp NilObj (OtherObj ''node-1'') NodeAdd, PopOp,
          AddEventIfPodInFlightOp (Some exPodB) exPodB PodUpdate, DoneOp ''b'',
          AddEventIfPodInFlightOp None exPodB PodUpdate]
          (snd (run [UnderLockOp [exInfoA, exInfoB], PopOp] (newActiveQueue exHeap True))))) \<and>
   clusterEventsForPod (exInfoA\<lparr>Attempts := 1\<rparr>)
     (snd (run [AddEventIfAnyInFlightOp NilObj (OtherObj ''node-1'') NodeAdd, PopOp,
          AddEventIfPodInFlightOp (Some exPodB) exPodB PodUpdate, DoneOp ''b'',
          AddEventIfPodInFlightOp None exPodB PodUpdate]
          (snd (run [UnderLockOp [exInfoA, exInfoB], PopOp] (newActiveQueue exHeap True))))) =
     Inr [\<lparr>event = NodeAdd, oldObj = NilObj, newObj = OtherObj ''node-1''\<rparr>,
          \<lparr>event = PodUpdate, oldObj = PodObj exPodB, newObj = PodObj exPodB\<rparr>]"
proof -
  let ?aq0 = "snd (run [UnderLockOp [exInfoA, exInfoB]] (newActiveQueue exHeap True))"
  let ?aq1 = "snd (run [UnderLockOp [exInfoA, exInfoB], PopOp] (newActiveQueue exHeap True))"
  let ?ops = "[AddEventIfAnyInFlightOp NilObj (OtherObj ''node-1'') NodeAdd, PopOp,
          AddEventIfPodInFlightOp (Some exPodB) exPodB PodUpdate, DoneOp ''b'',
          AddEventIfPodInFlightOp None exPodB PodUpdate]"
  let ?P = "exInfoA\<lparr>Attempts := 1\<rparr>"
  have p: "pop ?aq0 = (Returned (Some ?P) None, ?aq1)"
    by (simp add: aq_defs ex_defs)
  have d: "DoneOp (UID (Pod ?P)) \<notin> set ?ops" by (simp add: ex_defs)
  have r: "run ?ops ?aq1 = (fst (run ?ops ?aq1), snd (run ?ops ?aq1))" by simp
  have n: "\<not> list_ex (poppedUID (UID (Pod ?P))) (fst (run ?ops ?aq1))"
    by (simp add: aq_defs ex_defs poppedUID_def)
  have c: "concat (map2 recorded ?ops (fst (run ?ops ?aq1))) =
     [\<lparr>event = NodeAdd, oldObj = NilObj, newObj = OtherObj ''node-1''\<rparr>,
      \<lparr>event = PodUpdate, oldObj = PodObj exPodB, newObj = PodObj exPodB\<rparr>]"
    by (simp add: aq_defs ex_defs recorded_def)
  from events_between_pop_and_done[OF refl p d r]
  have "\<not> list_ex (poppedUID (UID (Pod ?P))) (fst (run ?ops ?aq1)) \<longrightarrow>
          clusterEventsForPod ?P (snd (run ?ops ?aq1)) =
            Inr (concat (map2 recorded ?ops (fst (run ?ops ?aq1))))"
    by (rule conjunct2)
  from this n have "clusterEventsForPod ?P (snd (run ?ops ?aq1)) =
            Inr (concat (map2 recorded ?ops (fst (run ?ops ?aq1))))"
    by (rule mp)
  then have e: "clusterEventsForPod ?P (snd (run ?ops ?aq1)) =
     Inr [\<lparr>event = NodeAdd, oldObj = NilObj, newObj = OtherObj ''node-1''\<rparr>,
          \<lparr>event = PodUpdate, oldObj = PodObj exPodB, newObj = PodObj exPodB\<rparr>]"
    by (simp only: c)
  from p d n e show ?thesis by (intro conjI)
qed

subsection \<open>Queues without hints\<close>

lemma noHints_exec: "noHints aq \<Longrightarrow> noHints (snd (exec x aq))"
  by (cases x) (auto simp: noHints_def underLock_def update_aq_def delete_aq_def pop_def Let_def PushBack_def
      addEventIfPodInFlight_def addEventIfAnyInFlight_def done_aq_def close_def broadcast_def
      split: option.splits sum.splits prod.splits if_splits)

lemma noHints_run: "noHints aq \<Longrightarrow> noHints (snd (run xs aq))"
proof (induction xs arbitrary: aq)
  case Nil
  then show ?case by simp
next
  case (Cons x xs)
  from Cons.IH[OF noHints_exec[OF Cons.prems, of x]] show ?case by (simp add: split_beta)
qed

text \<open>
  Claim C4: on a queue constructed with hints disabled, after every sequence of method calls
  \<open>inFlightPods\<close> and the timeline are empty, \<open>clusterEventsForPod\<close> returns the
  \<open>NotInFlight\<close> error, and \<open>addEventIfPodInFlight\<close> and \<open>addEventIfAnyInFlight\<close> return
  false and leave the queue, and with it the timeline, unchanged.
\<close>

theorem no_hints_nothing_in_flight:
  "inFlightPods (snd (run ops (newActiveQueue h False))) = [] \<and>
   inFlightEvents (snd (run ops (newActiveQueue h False))) = [] \<and>
   clusterEventsForPod pInfo (snd (run ops (newActiveQueue h False))) = Inl NotInFlight \<and>
   addEventIfPodInFlight oldPod newPod ev (snd (run ops (newActiveQueue h False))) =
     (False, snd (run ops (newActiveQueue h False))) \<and>
   addEventIfAnyInFlight old new ev' (snd (run ops (newActiveQueue h False))) =
     (False, snd (run ops (newActiveQueue h False)))"
proof -
  have "noHints (newActiveQueue h False)" by (simp add: noHints_def newActiveQueue_def)
  then have "noHints (snd (run ops (newActiveQueue h False)))" by (rule noHints_run)
  then show ?thesis
    by (simp add: noHints_def clusterEventsForPod_def addEventIfPodInFlight_def
        addEventIfAnyInFlight_def)
qed

theorem no_hints_nothing_in_flight_witness:
  "clusterEventsForPod (exInfoA\<lparr>Attempts := 1\<rparr>)
     (snd (run [UnderLockOp [exInfoA], PopOp] (newActiveQueue exHeap False))) = Inl NotInFlight \<and>
   addEventIfPodInFlight None exPodA PodUpdate
     (snd (run [UnderLockOp [exInfoA], PopOp] (newActiveQueue exHeap False))) =
     (False, snd (run [UnderLockOp [exInfoA], PopOp] (newActiveQueue exHeap False))) \<and>
   addEventIfAnyInFlight NilObj (OtherObj ''node-1'') NodeAdd
     (snd (run [UnderLockOp [exInfoA], PopOp] (newActiveQueue exHeap False))) =
     (False, snd (run [UnderLockOp [exInfoA], PopOp] (newActiveQueue exHeap False))) \<and>
   fst (run [UnderLockOp [exInfoA], PopOp] (newActiveQueue exHeap False)) =
     [RUnit, RPop (Returned (Some (exInfoA\<lparr>Attempts := 1\<rparr>)) None)]"
proof -
  have r: "fst (run [UnderLockOp [exInfoA], PopOp] (newActiveQueue exHeap False)) =
     [RUnit, RPop (Returned (Some (exInfoA\<lparr>Attempts := 1\<rparr>)) None)]"
    by (simp add: aq_defs ex_defs)
  from no_hints_nothing_in_flight[of "[UnderLockOp [exInfoA], PopOp]" exHeap
      "exInfoA\<lparr>Attempts := 1\<rparr>" None exPodA PodUpdate NilObj "OtherObj ''node-1''" NodeAdd] r
  show ?thesis by blast
qed

subsection \<open>What done leaves in the timeline\<close>

lemma done_unmaps: "map_of (inFlightPods (done_aq u aq)) u = None"
  by (simp add: done_aq_def delete_conv split: option.splits)

lemma done_removes_element:
  "map_of (inFlightPods aq) u = Some r \<Longrightarrow> r \<notin> fst ` set (inFlightEvents (done_aq u aq))"
  using pruneFront_subset[of "Remove r (inFlightEvents aq)"]
  by (auto simp: done_aq_def Remove_def)

lemma done_front: "wf aq \<Longrightarrow> frontIsPod (inFlightEvents (done_aq u aq))"
  using wf_done[of aq u] by (simp add: wf_def wfT_def)

lemma done_no_marker:
  assumes "markersTracked u aq"
  shows "\<not> list_ex (\<lambda>e. isMarkerOf u (snd e)) (inFlightEvents (done_aq u aq))"
proof (cases "map_of (inFlightPods aq) u")
  case None
  with assms show ?thesis
    by (auto simp: done_aq_def markersTracked_def list_all_iff list_ex_iff)
next
  case (Some r)
  have "\<forall>e \<in> set (Remove r (inFlightEvents aq)). \<not> isMarkerOf u (snd e)"
    using assms Some by (auto simp: markersTracked_def list_all_iff Remove_def)
  with pruneFront_subset[of "Remove r (inFlightEvents aq)"] Some show ?thesis
    by (auto simp: done_aq_def list_ex_iff)
qed

lemma pruneFront_prefix: "\<exists>pre. l = pre @ pruneFront l \<and> list_all isEvent pre"
proof (induction l rule: pruneFront.induct)
  case 1
  show ?case by simp
next
  case (2 i e l)
  then obtain pre where "l = pre @ pruneFront l" "list_all isEvent pre" by blast
  then have "(i, EventRecord e) # l = ((i, EventRecord e) # pre) @ pruneFront ((i, EventRecord e) # l)
      \<and> list_all isEvent ((i, EventRecord e) # pre)"
    by (simp add: isEvent_def)
  then show ?case by blast
next
  case (3 i p l)
  have "(i, PodMarker p) # l = [] @ pruneFront ((i, PodMarker p) # l) \<and> list_all isEvent []"
    by simp
  then show ?case by blast
qed

lemma Remove_split:
  assumes "distinct (map fst l)" "(r, v) \<in> set l"
  shows "\<exists>l1 l2. l = l1 @ (r, v) # l2 \<and> Remove r l = l1 @ l2"
proof -
  from assms(2) obtain l1 l2 where l: "l = l1 @ (r, v) # l2" by (auto simp: in_set_conv_decomp)
  with assms(1) have "r \<notin> fst ` set l1" "r \<notin> fst ` set l2" by auto
  then have "filter (\<lambda>e. fst e \<noteq> r) l1 = l1" "filter (\<lambda>e. fst e \<noteq> r) l2 = l2"
    by (auto simp: filter_id_conv image_iff)
  with l have "Remove r l = l1 @ l2" by (simp add: Remove_def)
  with l show ?thesis by blast
qed

lemma done_keeps_rest:
  assumes w: "wf aq" and m: "map_of (inFlightPods aq) u = Some r"
  shows "\<exists>l1 p l2 pre.
           inFlightEvents aq = l1 @ (r, PodMarker p) # l2 \<and> UID p = u \<and>
           l1 @ l2 = pre @ inFlightEvents (done_aq u aq) \<and> list_all isEvent pre"
proof -
  from w have wT: "wfT (inFlightPods aq) (inFlightEvents aq) (nextElem aq)" by (simp add: wf_def)
  from wfT_marker[OF wT m] obtain p where p: "(r, PodMarker p) \<in> set (inFlightEvents aq)" "UID p = u"
    by blast
  from Remove_split[OF wfT_distinct[OF wT] p(1)] obtain l1 l2 where
    l: "inFlightEvents aq = l1 @ (r, PodMarker p) # l2" and
    rm: "Remove r (inFlightEvents aq) = l1 @ l2" by blast
  from pruneFront_prefix[of "l1 @ l2"] obtain pre where
    pre: "l1 @ l2 = pre @ pruneFront (l1 @ l2)" "list_all isEvent pre" by blast
  have d: "inFlightEvents (done_aq u aq) = pruneFront (l1 @ l2)"
    using m rm by (simp add: done_aq_def)
  from l p(2) pre d have "inFlightEvents aq = l1 @ (r, PodMarker p) # l2 \<and> UID p = u \<and>
           l1 @ l2 = pre @ inFlightEvents (done_aq u aq) \<and> list_all isEvent pre" by simp
  then show ?thesis by blast
qed

text \<open>
  Claim C3, as stated, fails: \<open>done\<close> removes the pod's marker and prunes events only from
  the front of the timeline. With pod \<open>a\<close> still in flight in front, the event recorded
  for pod \<open>b\<close> stays in the timeline after \<open>done\<close> for \<open>b\<close>, and it refers to \<open>b\<close>.
\<close>

theorem event_of_done_pod_stays:
  "list_ex (references ''b'')
     (listInFlightEvents (snd (run [UnderLockOp [exInfoA, exInfoB], PopOp, PopOp,
        AddEventIfPodInFlightOp None exPodB PodUpdate, DoneOp ''b'']
        (newActiveQueue exHeap True)))) \<and>
   inFlightEvents (snd (run [UnderLockOp [exInfoA, exInfoB], PopOp, PopOp,
        AddEventIfPodInFlightOp None exPodB PodUpdate, DoneOp ''b'']
        (newActiveQueue exHeap True))) =
     [(0, PodMarker exPodA),
      (2, EventRecord \<lparr>event = PodUpdate, oldObj = NilObj, newObj = PodObj exPodB\<rparr>)]"
  by (simp add: aq_defs ex_defs)

text \<open>
  Claim C3, amended: in every reachable state, after \<open>done\<close> for \<open>u\<close> the UID \<open>u\<close> is no
  key of \<open>inFlightPods\<close>, the element \<open>inFlightPods\<close> held for \<open>u\<close> is no longer in the
  timeline, no pod with UID \<open>u\<close> is left in the timeline provided the pod was not popped a
  second time while in flight, and the timeline is empty or has a pod in front. Nothing else
  is removed by UID: \<open>done\<close> takes out exactly the pod element \<open>inFlightPods\<close> held for \<open>u\<close>
  and then a leading run of events, and every other entry stays, in order. For every other
  pod in flight, its entry in \<open>inFlightPods\<close> and the events behind its marker are as before.
\<close>

theorem done_unlinks_marker_and_prunes:
  assumes "aq = snd (run ops (newActiveQueue h hints))"
  shows "map_of (inFlightPods (done_aq u aq)) u = None \<and>
         (\<forall>r. map_of (inFlightPods aq) u = Some r \<longrightarrow>
              r \<notin> fst ` set (inFlightEvents (done_aq u aq))) \<and>
         (markersTracked u aq \<longrightarrow>
            \<not> list_ex (\<lambda>e. isMarkerOf u (snd e)) (inFlightEvents (done_aq u aq))) \<and>
         frontIsPod (inFlightEvents (done_aq u aq)) \<and>
         (\<forall>r. map_of (inFlightPods aq) u = Some r \<longrightarrow>
            (\<exists>l1 p l2 pre.
               inFlightEvents aq = l1 @ (r, PodMarker p) # l2 \<and> UID p = u \<and>
               l1 @ l2 = pre @ inFlightEvents (done_aq u aq) \<and> list_all isEvent pre)) \<and>
         (\<forall>v rv. v \<noteq> u \<longrightarrow> map_of (inFlightPods aq) v = Some rv \<longrightarrow>
            map_of (inFlightPods (done_aq u aq)) v = Some rv \<and>
            eventsAfter rv (done_aq u aq) = eventsAfter rv aq)"
proof -
  have w: "wf aq" unfolding assms using wf_new by (rule wf_run)
  have a: "map_of (inFlightPods (done_aq u aq)) u = None" by (rule done_unmaps)
  have b: "\<forall>r. map_of (inFlightPods aq) u = Some r \<longrightarrow>
              r \<notin> fst ` set (inFlightEvents (done_aq u aq))"
    using done_removes_element by blast
  have c: "markersTracked u aq \<longrightarrow>
            \<not> list_ex (\<lambda>e. isMarkerOf u (snd e)) (inFlightEvents (done_aq u aq))"
    using done_no_marker by blast
  have d: "frontIsPod (inFlightEvents (done_aq u aq))" using w by (rule done_front)
  have e: "\<forall>r. map_of (inFlightPods aq) u = Some r \<longrightarrow>
            (\<exists>l1 p l2 pre.
               inFlightEvents aq = l1 @ (r, PodMarker p) # l2 \<and> UID p = u \<and>
               l1 @ l2 = pre @ inFlightEvents (done_aq u aq) \<and> list_all isEvent pre)"
  proof (intro allI impI)
    fix r assume "map_of (inFlightPods aq) u = Some r"
    with w show "\<exists>l1 p l2 pre.
               inFlightEvents aq = l1 @ (r, PodMarker p) # l2 \<and> UID p = u \<and>
               l1 @ l2 = pre @ inFlightEvents (done_aq u aq) \<and> list_all isEvent pre"
      by (rule done_keeps_rest)
  qed
  have f: "\<forall>v rv. v \<noteq> u \<longrightarrow> map_of (inFlightPods aq) v = Some rv \<longrightarrow>
            map_of (inFlightPods (done_aq u aq)) v = Some rv \<and>
            eventsAfter rv (done_aq u aq) = eventsAfter rv aq"
  proof (intro allI impI)
    fix v rv assume "v \<noteq> u" and m: "map_of (inFlightPods aq) v = Some rv"
    then have "u \<noteq> v" by simp
    with w m show "map_of (inFlightPods (done_aq u aq)) v = Some rv \<and>
            eventsAfter rv (done_aq u aq) = eventsAfter rv aq"
      by (rule step_done)
  qed
  from a b c d e f show ?thesis by (intro conjI)
qed

theorem done_unlinks_marker_and_prunes_witness:
  "map_of (inFlightPods (snd (run [UnderLockOp [exInfoA, exInfoB], PopOp,
       AddEventIfAnyInFlightOp NilObj (OtherObj ''node-1'') NodeAdd, PopOp,
       AddEventIfPodInFlightOp None exPodB PodUpdate] (newActiveQueue exHeap True)))) ''a'' = Some 0 \<and>
   0 \<notin> fst ` set (inFlightEvents (done_aq ''a'' (snd (run [UnderLockOp [exInfoA, exInfoB], PopOp,
       AddEventIfAnyInFlightOp NilObj (OtherObj ''node-1'') NodeAdd, PopOp,
       AddEventIfPodInFlightOp None exPodB PodUpdate] (newActiveQueue exHeap True))))) \<and>
   markersTracked ''a'' (snd (run [UnderLockOp [exInfoA, exInfoB], PopOp,
       AddEventIfAnyInFlightOp NilObj (OtherObj ''node-1'') NodeAdd, PopOp,
       AddEventIfPodInFlightOp None exPodB PodUpdate] (newActiveQueue exHeap True))) \<and>
   \<not> list_ex (\<lambda>e. isMarkerOf ''a'' (snd e))
       (inFlightEvents (done_aq ''a'' (snd (run [UnderLockOp [exInfoA, exInfoB], PopOp,
       AddEventIfAnyInFlightOp NilObj (OtherObj ''node-1'') NodeAdd, PopOp,
       AddEventIfPodInFlightOp None exPodB PodUpdate] (newActiveQueue exHeap True))))) \<and>
   frontIsPod (inFlightEvents (done_aq ''a'' (snd (run [UnderLockOp [exInfoA, exInfoB], PopOp,
       AddEventIfAnyInFlightOp NilObj (OtherObj ''node-1'') NodeAdd, PopOp,
       AddEventIfPodInFlightOp None exPodB PodUpdate] (newActiveQueue exHeap True))))) \<and>
   map_of (inFlightPods (done_aq ''a'' (snd (run [UnderLockOp [exInfoA, exInfoB], PopOp,
       AddEventIfAnyInFlightOp NilObj (OtherObj ''node-1'') NodeAdd, PopOp,
       AddEventIfPodInFlightOp None exPodB PodUpdate] (newActiveQueue exHeap True))))) ''a'' = None \<and>
   (\<exists>l1 p l2 pre.
      inFlightEvents (snd (run [UnderLockOp [exInfoA, exInfoB], PopOp,
       AddEventIfAnyInFlightOp NilObj (OtherObj ''node-1'') NodeAdd, PopOp,
       AddEventIfPodInFlightOp None exPodB PodUpdate] (newActiveQueue exHeap True))) =
        l1 @ (0, PodMarker p) # l2 \<and> UID p = ''a'' \<and>
      l1 @ l2 = pre @ inFlightEvents (done_aq ''a'' (snd (run [UnderLockOp [exInfoA, exInfoB], PopOp,
       AddEventIfAnyInFlightOp NilObj (OtherObj ''node-1'') NodeAdd, PopOp,
       AddEventIfPodInFlightOp None exPodB PodUpdate] (newActiveQueue exHeap True)))) \<and>
      list_all isEvent pre) \<and>
   ''b'' \<noteq> ''a'' \<and>
   map_of (inFlightPods (snd (run [UnderLockOp [exInfoA, exInfoB], PopOp,
       AddEventIfAnyInFlightOp NilObj (OtherObj ''node-1'') NodeAdd, PopOp,
       AddEventIfPodInFlightOp None exPodB PodUpdate] (newActiveQueue exHeap True)))) ''b'' = Some 2 \<and>
   map_of (inFlightPods (done_aq ''a'' (snd (run [UnderLockOp [exInfoA, exInfoB], PopOp,
       AddEventIfAnyInFlightOp NilObj (OtherObj ''node-1'') NodeAdd, PopOp,
       AddEventIfPodInFlightOp None exPodB PodUpdate] (newActiveQueue exHeap True))))) ''b'' = Some 2 \<and>
   eventsAfter 2 (done_aq ''a'' (snd (run [UnderLockOp [exInfoA, exInfoB], PopOp,
       AddEventIfAnyInFlightOp NilObj (OtherObj ''node-1'') NodeAdd, PopOp,
       AddEventIfPodInFlightOp None exPodB PodUpdate] (newActiveQueue exHeap True)))) =
     eventsAfter 2 (snd (run [UnderLockOp [exInfoA, exInfoB], PopOp,
       AddEventIfAnyInFlightOp NilObj (OtherObj ''node-1'') NodeAdd, PopOp,
       AddEventIfPodInFlightOp None exPodB PodUpdate] (newActiveQueue exHeap True)))"
proof -
  let ?ops = "[UnderLockOp [exInfoA, exInfoB], PopOp,
       AddEventIfAnyInFlightOp NilObj (OtherObj ''node-1'') NodeAdd, PopOp,
       AddEventIfPodInFlightOp None exPodB PodUpdate]"
  let ?aq = "snd (run ?ops (newActiveQueue exHeap True))"
  have ma: "map_of (inFlightPods ?aq) ''a'' = Some 0" by (simp add: aq_defs ex_defs)
  have mb: "map_of (inFlightPods ?aq) ''b'' = Some 2" by (simp add: aq_defs ex_defs)
  have t: "markersTracked ''a'' ?aq" by (simp add: aq_defs ex_defs)
  have ne: "''b'' \<noteq> ''a''" by simp
  note th = done_unlinks_marker_and_prunes[OF refl, of "''a''" ?ops exHeap True]
  from th have d1: "map_of (inFlightPods (done_aq ''a'' ?aq)) ''a'' = None" by (rule conjunct1)
  from th[THEN conjunct2, THEN conjunct1] ma
  have d2: "0 \<notin> fst ` set (inFlightEvents (done_aq ''a'' ?aq))" by blast
  from th[THEN conjunct2, THEN conjunct2, THEN conjunct1] t
  have d3: "\<not> list_ex (\<lambda>e. isMarkerOf ''a'' (snd e)) (inFlightEvents (done_aq ''a'' ?aq))"
    by (rule mp)
  from th[THEN conjunct2, THEN conjunct2, THEN conjunct2, THEN conjunct1]
  have d4: "frontIsPod (inFlightEvents (done_aq ''a'' ?aq))" .
  from th[THEN conjunct2, THEN conjunct2, THEN conjunct2, THEN conjunct2, THEN conjunct1,
          THEN spec, THEN mp, OF ma]
  have d5: "\<exists>l1 p l2 pre.
      inFlightEvents ?aq = l1 @ (0, PodMarker p) # l2 \<and> UID p = ''a'' \<and>
      l1 @ l2 = pre @ inFlightEvents (done_aq ''a'' ?aq) \<and> list_all isEvent pre" .
  from th[THEN conjunct2, THEN conjunct2, THEN conjunct2, THEN conjunct2, THEN conjunct2,
          THEN spec, THEN spec, THEN mp, THEN mp, OF ne mb]
  have d6: "map_of (inFlightPods (done_aq ''a'' ?aq)) ''b'' = Some 2 \<and>
            eventsAfter 2 (done_aq ''a'' ?aq) = eventsAfter 2 ?aq" .
  from d6 have d6a: "map_of (inFlightPods (done_aq ''a'' ?aq)) ''b'' = Some 2" by (rule conjunct1)
  from d6 have d6b: "eventsAfter 2 (done_aq ''a'' ?aq) = eventsAfter 2 ?aq" by (rule conjunct2)
  from ma d2 t d3 d4 d1 d5 ne mb d6a d6b show ?thesis by (intro conjI)
qed

subsection \<open>Updating a queued pod\<close>

lemma update_absent:
  "Heap_Get (queue aq) oldPodInfo = None \<Longrightarrow> update_aq newPod oldPodInfo aq = (None, aq)"
  by (simp add: update_aq_def)

lemma update_present:
  assumes "Heap_Get (queue aq) oldPodInfo = Some pInfo"
  shows "fst (update_aq newPod oldPodInfo aq) = Some (Update pInfo newPod)"
    and "Heap_Get (queue (snd (update_aq newPod oldPodInfo aq))) oldPodInfo = Some (Update pInfo newPod)"
  using assms
  by (simp_all add: update_aq_def Let_def Heap_Get_def Heap_AddOrUpdate_def update_conv)

lemma update_keeps_keys:
  assumes g: "Heap_Get (queue aq) oldPodInfo = Some pInfo"
    and k: "keyFunc (queue aq) (Update pInfo newPod) = keyFunc (queue aq) oldPodInfo"
  shows "snd (update_aq newPod oldPodInfo aq) =
           aq\<lparr>queue := Heap_AddOrUpdate (Update pInfo newPod) (queue aq)\<rparr>"
    and "map fst (items (queue (snd (update_aq newPod oldPodInfo aq)))) = map fst (items (queue aq))"
    and "len (snd (update_aq newPod oldPodInfo aq)) = len aq"
proof -
  show s: "snd (update_aq newPod oldPodInfo aq) =
           aq\<lparr>queue := Heap_AddOrUpdate (Update pInfo newPod) (queue aq)\<rparr>"
    using g k by (simp add: update_aq_def Let_def Heap_AddOrUpdate_def)
  from g have "keyFunc (queue aq) oldPodInfo \<in> fst ` set (items (queue aq))"
    by (auto simp: Heap_Get_def dest: map_of_SomeD intro: rev_image_eqI)
  then show m: "map fst (items (queue (snd (update_aq newPod oldPodInfo aq)))) = map fst (items (queue aq))"
    using k by (simp add: s Heap_AddOrUpdate_def update_keys)
  have "length (map fst (items (queue (snd (update_aq newPod oldPodInfo aq))))) = length (map fst (items (queue aq)))"
    by (simp only: m)
  then show "len (snd (update_aq newPod oldPodInfo aq)) = len aq"
    by (simp add: len_def Heap_Len_def)
qed

text \<open>
  Claim C5, as stated, fails: \<open>update\<close> hands the updated pod info to \<open>AddOrUpdate\<close>, which
  files it under the key of the new pod. When the new pod has another key than the old pod
  info, an entry is inserted: the heap grows from one entry to two.
\<close>

theorem update_new_key_inserts:
  "len (underLock [exInfoA] (newActiveQueue exHeap True)) = 1 \<and>
   len (snd (update_aq exPodB exInfoA (underLock [exInfoA] (newActiveQueue exHeap True)))) = 2 \<and>
   map fst (items (queue (snd (update_aq exPodB exInfoA (underLock [exInfoA] (newActiveQueue exHeap True)))))) = [''a'', ''b'']"
  by (simp add: aq_defs ex_defs Let_def)

text \<open>
  Claim C5, amended: if no heap entry with the key of \<open>oldPodInfo\<close> exists, \<open>update\<close>
  returns null and leaves the queue unchanged. If one exists, \<open>update\<close> sets the pod of that
  entry to \<open>newPod\<close> and returns the updated entry, which is then the entry under that key;
  and if the updated entry has the key of \<open>oldPodInfo\<close>, nothing is inserted: the heap is the
  old heap after \<open>AddOrUpdate\<close> of the updated entry, with the same keys in the same places
  and the same length, and no other field of the queue changes.
\<close>

theorem update_same_key_never_inserts:
  "(Heap_Get (queue aq) oldPodInfo = None \<longrightarrow> update_aq newPod oldPodInfo aq = (None, aq)) \<and>
   (\<forall>pInfo. Heap_Get (queue aq) oldPodInfo = Some pInfo \<longrightarrow>
      fst (update_aq newPod oldPodInfo aq) = Some (Update pInfo newPod) \<and>
      Pod (Update pInfo newPod) = newPod \<and>
      Heap_Get (queue (snd (update_aq newPod oldPodInfo aq))) oldPodInfo = Some (Update pInfo newPod) \<and>
      (keyFunc (queue aq) (Update pInfo newPod) = keyFunc (queue aq) oldPodInfo \<longrightarrow>
         snd (update_aq newPod oldPodInfo aq) =
           aq\<lparr>queue := Heap_AddOrUpdate (Update pInfo newPod) (queue aq)\<rparr> \<and>
         map fst (items (queue (snd (update_aq newPod oldPodInfo aq)))) = map fst (items (queue aq)) \<and>
         len (snd (update_aq newPod oldPodInfo aq)) = len aq))"
  using update_absent update_present update_keeps_keys by (simp add: Update_def)

theorem update_same_key_never_inserts_witness:
  "Heap_Get (queue (underLock [exInfoA] (newActiveQueue exHeap True))) exInfoB = None \<and>
   update_aq exPodA' exInfoB (underLock [exInfoA] (newActiveQueue exHeap True)) =
     (None, underLock [exInfoA] (newActiveQueue exHeap True)) \<and>
   Heap_Get (queue (underLock [exInfoA] (newActiveQueue exHeap True))) exInfoA = Some exInfoA \<and>
   keyFunc (queue (underLock [exInfoA] (newActiveQueue exHeap True))) (Update exInfoA exPodA') =
     keyFunc (queue (underLock [exInfoA] (newActiveQueue exHeap True))) exInfoA \<and>
   fst (update_aq exPodA' exInfoA (underLock [exInfoA] (newActiveQueue exHeap True))) =
     Some (exInfoA\<lparr>Pod := exPodA'\<rparr>) \<and>
   len (snd (update_aq exPodA' exInfoA (underLock [exInfoA] (newActiveQueue exHeap True)))) = 1"
proof -
  let ?aq = "underLock [exInfoA] (newActiveQueue exHeap True)"
  have n: "Heap_Get (queue ?aq) exInfoB = None" by (simp add: aq_defs ex_defs)
  have g: "Heap_Get (queue ?aq) exInfoA = Some exInfoA" by (simp add: aq_defs ex_defs)
  have k: "keyFunc (queue ?aq) (Update exInfoA exPodA') = keyFunc (queue ?aq) exInfoA"
    by (simp add: aq_defs ex_defs)
  have l: "len ?aq = 1" by (simp add: aq_defs ex_defs)
  from update_same_key_never_inserts[of ?aq exInfoB exPodA'] n
  have r1: "update_aq exPodA' exInfoB ?aq = (None, ?aq)" by blast
  from update_same_key_never_inserts[of ?aq exInfoA exPodA'] g k
  have r2: "fst (update_aq exPodA' exInfoA ?aq) = Some (Update exInfoA exPodA')"
    and r3: "len (snd (update_aq exPodA' exInfoA ?aq)) = len ?aq" by blast+
  from r2 have r2a: "fst (update_aq exPodA' exInfoA ?aq) = Some (exInfoA\<lparr>Pod := exPodA'\<rparr>)"
    by (simp only: Update_def)
  from r3 l have r3a: "len (snd (update_aq exPodA' exInfoA ?aq)) = 1" by simp
  from n r1 g k r2a r3a show ?thesis by (intro conjI)
qed

subsection \<open>Waiting in pop\<close>








end
